theory Spec2Isabelle
  imports Complex_Main "HOL-Library.Sublist" "HOL-Library.Char_ord" "HOL-Library.List_Lexorder"
begin

section \<open>The tabular processor (src/src/data_processor.py)\<close>

subsection \<open>Data frames\<close>

text \<open>
  A data frame is kept row by row: the ordered column labels, and for every row its index
  label and its cells, one per column. A missing value (None, NaN) is the cell \<open>None\<close>.
  Column labels are unique, as in every frame read from a CSV file. The operations of the
  table library that \<^verbatim>\<open>DataProcessor\<close> calls keep the index labels of the rows they keep.
\<close>

record ('i, 'a) frame =
  columns :: "string list"
  rows :: "('i \<times> 'a option list) list"

datatype py_error = ValueError string | KeyError string | TypeError string

text \<open>\<^verbatim>\<open>df.dropna()\<close>: the rows without a missing cell.\<close>

definition dropna :: "('i, 'a) frame \<Rightarrow> ('i, 'a) frame" where
  "dropna df = df\<lparr>rows := filter (\<lambda>(label, cells). None \<notin> set cells) (rows df)\<rparr>"

text \<open>
  \<^verbatim>\<open>df.drop_duplicates()\<close>: of the rows with the same cells the first one stays
  (\<^verbatim>\<open>keep='first'\<close>); the index label is not compared. A frame with an axis of length 0
  (\<^verbatim>\<open>df.empty\<close>) is returned as it is.
\<close>

fun keep_first :: "'b list \<Rightarrow> ('i \<times> 'b) list \<Rightarrow> ('i \<times> 'b) list" where
  "keep_first seen [] = []"
| "keep_first seen ((label, cells) # rest) =
     (if cells \<in> set seen then keep_first seen rest
      else (label, cells) # keep_first (cells # seen) rest)"

definition frame_empty :: "('i, 'a) frame \<Rightarrow> bool" where
  "frame_empty df = (columns df = [] \<or> rows df = [])"

definition drop_duplicates :: "('i, 'a) frame \<Rightarrow> ('i, 'a) frame" where
  "drop_duplicates df =
     (if frame_empty df then df else df\<lparr>rows := keep_first [] (rows df)\<rparr>)"

text \<open>
  \<^verbatim>\<open>df[column]\<close>: the cells of one column, top to bottom; KeyError when no column has the
  label. A row shorter than the header reads as missing there.
\<close>

fun index_of :: "'x \<Rightarrow> 'x list \<Rightarrow> nat" where
  "index_of x [] = 0"
| "index_of x (y # ys) = (if x = y then 0 else Suc (index_of x ys))"

definition cell_at :: "nat \<Rightarrow> 'a option list \<Rightarrow> 'a option" where
  "cell_at k cells = (if k < length cells then cells ! k else None)"

definition getitem_column :: "('i, 'a) frame \<Rightarrow> string \<Rightarrow> py_error + 'a option list" where
  "getitem_column df column =
     (if column \<in> set (columns df)
      then Inr (map (\<lambda>(label, cells). cell_at (index_of column (columns df)) cells) (rows df))
      else Inl (KeyError column))"

text \<open>\<^verbatim>\<open>df[mask]\<close> with a boolean mask: the rows whose mask entry is True.\<close>

definition getitem_mask :: "('i, 'a) frame \<Rightarrow> bool list \<Rightarrow> ('i, 'a) frame" where
  "getitem_mask df flags = df\<lparr>rows := map snd (filter fst (zip flags (rows df)))\<rparr>"

text \<open>
  What the table library computes on the values of a column is not code of this repository:
  the comparison of a column with a scalar (\<^verbatim>\<open>==\<close>, \<^verbatim>\<open>>\<close>, \<^verbatim>\<open><\<close>), which gives a boolean
  mask or raises, and the five reductions of \<^verbatim>\<open>calculate_statistics\<close>, which give a number
  or raise. They are parameters of the model.
\<close>

datatype comparison = OpEq | OpGt | OpLt

datatype reduction = RMean | RMedian | RStd | RMin | RMax

record ('a, 'v, 's) table_library =
  compare :: "comparison \<Rightarrow> 'a option list \<Rightarrow> 'v \<Rightarrow> py_error + bool list"
  reduce :: "reduction \<Rightarrow> 'a option list \<Rightarrow> py_error + 's"

subsection \<open>Objects\<close>

text \<open>
  Python variables and attributes hold references. The frames live in a store; a new frame
  gets the next unused reference, and no operation of the processor writes to a frame that
  exists: \<^verbatim>\<open>copy\<close>, \<^verbatim>\<open>dropna\<close>, \<^verbatim>\<open>drop_duplicates\<close> and \<^verbatim>\<open>df[mask]\<close> each make a new one.
\<close>

type_synonym ref = nat

record ('i, 'a) store =
  frames :: "ref \<Rightarrow> ('i, 'a) frame"
  next_ref :: ref

definition new_frame :: "('i, 'a) store \<Rightarrow> ('i, 'a) frame \<Rightarrow> ref \<times> ('i, 'a) store" where
  "new_frame st df =
     (next_ref st, st\<lparr>frames := (frames st)(next_ref st := df), next_ref := Suc (next_ref st)\<rparr>)"

record DataProcessor =
  data :: ref

text \<open>\<^verbatim>\<open>__init__\<close>: the frame passed in is kept by reference; without one, a new empty frame.\<close>

definition DataProcessor_init ::
  "('i, 'a) store \<Rightarrow> ref option \<Rightarrow> ('i, 'a) store \<times> DataProcessor" where
  "DataProcessor_init st arg =
     (case arg of
        Some r \<Rightarrow> (st, \<lparr>data = r\<rparr>)
      | None \<Rightarrow> (let (r, st') = new_frame st \<lparr>columns = [], rows = []\<rparr> in (st', \<lparr>data = r\<rparr>)))"

text \<open>The frame a processor holds.\<close>

definition table_of :: "('i, 'a) store \<times> DataProcessor \<Rightarrow> ('i, 'a) frame" where
  "table_of sp = frames (fst sp) (data (snd sp))"

subsection \<open>The operations\<close>

text \<open>
  \<^verbatim>\<open>clean_data\<close>: two assignments to \<^verbatim>\<open>self.data\<close>, each of a new frame.
\<close>

definition clean_data ::
  "('i, 'a) store \<Rightarrow> DataProcessor \<Rightarrow> ('i, 'a) store \<times> DataProcessor" where
  "clean_data st self =
     (let (r1, st1) = new_frame st (dropna (frames st (data self)));
          self1 = self\<lparr>data := r1\<rparr>;
          (r2, st2) = new_frame st1 (drop_duplicates (frames st1 (data self1)));
          self2 = self1\<lparr>data := r2\<rparr>
      in (st2, self2))"

definition then_err :: "'e + 'x \<Rightarrow> ('x \<Rightarrow> 'e + 'y) \<Rightarrow> 'e + 'y" where
  "then_err r f = (case r of Inl e \<Rightarrow> Inl e | Inr x \<Rightarrow> f x)"

text \<open>\<^verbatim>\<open>self.data[column].mean()\<close> and its four siblings.\<close>

definition column_reduce ::
  "('a, 'v, 's) table_library \<Rightarrow> ('i, 'a) frame \<Rightarrow> string \<Rightarrow> reduction \<Rightarrow> py_error + 's" where
  "column_reduce lib df column red = then_err (getitem_column df column) (reduce lib red)"

text \<open>
  \<^verbatim>\<open>calculate_statistics\<close>: the guard, then the dictionary, its five values computed in the
  order written. The dictionary is the list of its items.
\<close>

definition calculate_statistics ::
  "('a, 'v, 's) table_library \<Rightarrow> ('i, 'a) store \<Rightarrow> DataProcessor \<Rightarrow> string
     \<Rightarrow> py_error + (string \<times> 's) list" where
  "calculate_statistics lib st self column =
     (let df = frames st (data self) in
      if column \<notin> set (columns df)
      then Inl (ValueError (''Column '' @ column @ '' not found in data''))
      else
        then_err (column_reduce lib df column RMean) (\<lambda>v_mean.
        then_err (column_reduce lib df column RMedian) (\<lambda>v_median.
        then_err (column_reduce lib df column RStd) (\<lambda>v_std.
        then_err (column_reduce lib df column RMin) (\<lambda>v_min.
        then_err (column_reduce lib df column RMax) (\<lambda>v_max.
          Inr [(''mean'', v_mean), (''median'', v_median), (''std'', v_std),
               (''min'', v_min), (''max'', v_max)]))))))"

text \<open>Of the results of calls made one after the other, the error of the first that raised.\<close>

fun first_error :: "('e + 'x) list \<Rightarrow> 'e option" where
  "first_error [] = None"
| "first_error (Inl e # rs) = Some e"
| "first_error (Inr x # rs) = first_error rs"

text \<open>
  \<^verbatim>\<open>filtered_data[filtered_data[column] == value]\<close> (and with \<^verbatim>\<open>>\<close>, \<^verbatim>\<open><\<close>): the column is
  read, compared, and the mask selects the rows of a new frame.
\<close>

definition select_rows ::
  "('a, 'v, 's) table_library \<Rightarrow> ('i, 'a) store \<Rightarrow> ref \<Rightarrow> string \<Rightarrow> comparison \<Rightarrow> 'v
     \<Rightarrow> (py_error + ref) \<times> ('i, 'a) store" where
  "select_rows lib st r column cmp v =
     (case then_err (getitem_column (frames st r) column) (\<lambda>series. compare lib cmp series v) of
        Inl e \<Rightarrow> (Inl e, st)
      | Inr flags \<Rightarrow>
          (let (r', st') = new_frame st (getitem_mask (frames st r) flags) in (Inr r', st')))"

text \<open>
  The loop of \<^verbatim>\<open>filter_data\<close> over the conditions; \<open>r\<close> is what the local variable
  \<^verbatim>\<open>filtered_data\<close> refers to.
\<close>

fun filter_loop ::
  "('a, 'v, 's) table_library \<Rightarrow> ('i, 'a) store \<Rightarrow> ref \<Rightarrow> (string \<times> string \<times> 'v) list
     \<Rightarrow> (py_error + ref) \<times> ('i, 'a) store" where
  "filter_loop lib st r [] = (Inr r, st)"
| "filter_loop lib st r ((column, operator, v) # conditions) =
     (if operator = ''equals'' then
        (case select_rows lib st r column OpEq v of
           (Inl e, st') \<Rightarrow> (Inl e, st')
         | (Inr r', st') \<Rightarrow> filter_loop lib st' r' conditions)
      else if operator = ''greater_than'' then
        (case select_rows lib st r column OpGt v of
           (Inl e, st') \<Rightarrow> (Inl e, st')
         | (Inr r', st') \<Rightarrow> filter_loop lib st' r' conditions)
      else if operator = ''less_than'' then
        (case select_rows lib st r column OpLt v of
           (Inl e, st') \<Rightarrow> (Inl e, st')
         | (Inr r', st') \<Rightarrow> filter_loop lib st' r' conditions)
      else (Inl (ValueError (''Unsupported operator: '' @ operator)), st))"

text \<open>\<^verbatim>\<open>filter_data\<close>: a copy of the stored frame, then the loop; \<^verbatim>\<open>self\<close> is not assigned.\<close>

definition filter_data ::
  "('a, 'v, 's) table_library \<Rightarrow> ('i, 'a) store \<Rightarrow> DataProcessor \<Rightarrow> (string \<times> string \<times> 'v) list
     \<Rightarrow> (py_error + ref) \<times> ('i, 'a) store" where
  "filter_data lib st self conditions =
     (let (r0, st0) = new_frame st (frames st (data self))
      in filter_loop lib st0 r0 conditions)"

text \<open>
  Two notions for the statements below: the operators \<^verbatim>\<open>filter_data\<close> accepts, and that a
  later store still holds every frame of an earlier one, unchanged.
\<close>

definition comparison_of :: "string \<Rightarrow> comparison option" where
  "comparison_of operator =
     (if operator = ''equals'' then Some OpEq
      else if operator = ''greater_than'' then Some OpGt
      else if operator = ''less_than'' then Some OpLt
      else None)"

definition extends :: "('i, 'a) store \<Rightarrow> ('i, 'a) store \<Rightarrow> bool" where
  "extends st st' = (next_ref st \<le> next_ref st' \<and> (\<forall>q < next_ref st. frames st' q = frames st q))"

subsection \<open>A library instance and the test fixture\<close>

text \<open>
  A library over cells that are integers or text. A column is compared with a scalar cell by
  cell, as Python compares the scalars; a missing cell compares False. The reductions are
  numeric: they skip missing cells, and a column holding text is refused with TypeError, as
  \<^verbatim>\<open>mean\<close> refuses it in the table library. \<open>Sqrt q\<close> stands for the square root of \<open>q\<close>.
\<close>

datatype scalar = Num int | Text string

fun scalar_compare :: "comparison \<Rightarrow> scalar option \<Rightarrow> scalar \<Rightarrow> py_error + bool" where
  "scalar_compare cmp None v = Inr False"
| "scalar_compare OpEq (Some a) v = Inr (a = v)"
| "scalar_compare OpGt (Some (Num a)) (Num b) = Inr (b < a)"
| "scalar_compare OpLt (Some (Num a)) (Num b) = Inr (a < b)"
| "scalar_compare OpGt (Some (Text a)) (Text b) = Inr (b < a)"
| "scalar_compare OpLt (Some (Text a)) (Text b) = Inr (a < b)"
| "scalar_compare cmp (Some a) v = Inl (TypeError ''comparison of text with a number'')"

fun cellwise :: "('c \<Rightarrow> py_error + bool) \<Rightarrow> 'c list \<Rightarrow> py_error + bool list" where
  "cellwise f [] = Inr []"
| "cellwise f (c # cs) =
     then_err (f c) (\<lambda>b. then_err (cellwise f cs) (\<lambda>bs. Inr (b # bs)))"

datatype stat = NaN | Val rat | Sqrt rat

definition numbers :: "scalar option list \<Rightarrow> int list" where
  "numbers cs = concat (map (\<lambda>c. case c of Some (Num n) \<Rightarrow> [n] | _ \<Rightarrow> []) cs)"

definition has_text :: "scalar option list \<Rightarrow> bool" where
  "has_text cs = list_ex (\<lambda>c. case c of Some (Text t) \<Rightarrow> True | _ \<Rightarrow> False) cs"

definition average :: "int list \<Rightarrow> rat" where
  "average ns = of_int (sum_list ns) / of_nat (length ns)"

fun numeric_reduce :: "reduction \<Rightarrow> int list \<Rightarrow> stat" where
  "numeric_reduce RMean ns = (if ns = [] then NaN else Val (average ns))"
| "numeric_reduce RMedian ns =
     (if ns = [] then NaN
      else if even (length ns)
      then Val (of_int (sort ns ! (length ns div 2 - 1) + sort ns ! (length ns div 2)) / 2)
      else Val (of_int (sort ns ! (length ns div 2))))"
| "numeric_reduce RStd ns =
     (if length ns < 2 then NaN
      else Sqrt (sum_list (map (\<lambda>n. (of_int n - average ns)\<^sup>2) ns) / of_nat (length ns - 1)))"
| "numeric_reduce RMin ns = (if ns = [] then NaN else Val (of_int (fold min ns (hd ns))))"
| "numeric_reduce RMax ns = (if ns = [] then NaN else Val (of_int (fold max ns (hd ns))))"

definition numeric_library :: "(scalar, scalar, stat) table_library" where
  "numeric_library =
     \<lparr>compare = (\<lambda>cmp series v. cellwise (\<lambda>c. scalar_compare cmp c v) series),
      reduce = (\<lambda>red series.
        if has_text series then Inl (TypeError ''Could not convert text to numeric'')
        else Inr (numeric_reduce red (numbers series)))\<rparr>"

definition sample_data :: "(nat, scalar) frame" where
  "sample_data =
     \<lparr>columns = [''id'', ''value'', ''category'', ''nullable''],
      rows = [(0, [Some (Num 1), Some (Num 10), Some (Text ''A''), Some (Num 1)]),
              (1, [Some (Num 2), Some (Num 20), Some (Text ''B''), None]),
              (2, [Some (Num 3), Some (Num 30), Some (Text ''A''), Some (Num 3)]),
              (3, [Some (Num 4), Some (Num 40), Some (Text ''C''), None]),
              (4, [Some (Num 5), Some (Num 50), Some (Text ''B''), Some (Num 5)])]\<rparr>"

definition sample_store :: "(nat, scalar) store" where
  "sample_store = \<lparr>frames = (\<lambda>r. \<lparr>columns = [], rows = []\<rparr>)(0 := sample_data), next_ref = 1\<rparr>"

definition sample_processor :: DataProcessor where
  "sample_processor = \<lparr>data = 0\<rparr>"

section \<open>The documentation validator (src/scripts/test_docs.py)\<close>

subsection \<open>What a run reads\<close>

text \<open>
  A value \<^verbatim>\<open>yaml.safe_load\<close> returns: text, another scalar (given by the name of its Python
  type and by what \<^verbatim>\<open>str\<close> makes of it: None, a number, a boolean, a date), a list, or a
  dictionary, whose keys are scalars, in the order of the document.
\<close>

datatype key = KStr string | KScalar string string

datatype yaml =
    YStr string
  | YScalar string string
  | YList "yaml list"
  | YDict "(key \<times> yaml) list"

text \<open>What \<^verbatim>\<open>compile(code, '<string>', 'exec')\<close> does: it returns, raises SyntaxError, or raises
  something else.\<close>

datatype compiled = Compiled | SyntaxError string | CompileError string

text \<open>
  The file system and the libraries, as the validator sees them. A call that can raise
  gives \<open>Inl\<close> of the exception's message (\<^verbatim>\<open>str(e)\<close>). Paths are their text.
  \<^item> \<open>safe_load f\<close>: \<^verbatim>\<open>with open(f) as h: yaml.safe_load(h)\<close>;
  \<^item> \<open>path_join a b\<close>: \<^verbatim>\<open>Path(a) / b\<close>;
  \<^item> \<open>path_exists p\<close>: \<^verbatim>\<open>Path(p).exists()\<close>, which answers, or raises the error of the
    operating system that it does not take for an absent file (a name that is too long);
  \<^item> \<open>rglob_md d\<close>: \<^verbatim>\<open>Path(d).rglob("*.md")\<close>, in the order it yields;
  \<^item> \<open>read_text f\<close>: \<^verbatim>\<open>Path(f).read_text()\<close>;
  \<^item> \<open>resolve_beside f p\<close>: \<^verbatim>\<open>(Path(f).parent / p).resolve()\<close>, which can raise as well;
  \<^item> \<open>findall_links\<close>, \<open>findall_images\<close>, \<open>finditer_code_blocks\<close>: the matches of the three
    regular expressions for links, images and fenced code blocks, as their groups;
  \<^item> \<open>compile_exec\<close>: the Python compiler; \<open>render_html\<close>: \<^verbatim>\<open>markdown.markdown\<close> followed
    by \<^verbatim>\<open>BeautifulSoup\<close>, giving the message of the exception when one is raised;
  \<^item> \<open>console_print\<close>: \<^verbatim>\<open>console.print\<close> of the \<^verbatim>\<open>rich\<close> library, giving the message of the
    exception when it raises one (it reads the text it prints as markup).
  What \<^verbatim>\<open>print_report\<close> hands to the console is a text, a text with a style, or a table:
  its title, its style, the header of its one column and its rows. Text is kept as its
  UTF-8 bytes.
\<close>

datatype printable =
    Plain string
  | Styled string string
  | Table string string string "string list"

record world =
  safe_load :: "string \<Rightarrow> string + yaml"
  path_join :: "string \<Rightarrow> string \<Rightarrow> string"
  path_exists :: "string \<Rightarrow> string + bool"
  rglob_md :: "string \<Rightarrow> string list"
  read_text :: "string \<Rightarrow> string + string"
  resolve_beside :: "string \<Rightarrow> string \<Rightarrow> string + string"
  findall_links :: "string \<Rightarrow> (string \<times> string) list"
  finditer_code_blocks :: "string \<Rightarrow> (string option \<times> string) list"
  compile_exec :: "string \<Rightarrow> compiled"
  findall_images :: "string \<Rightarrow> (string \<times> string) list"
  render_html :: "string \<Rightarrow> string option"
  console_print :: "printable \<Rightarrow> string option"

subsection \<open>The validator and its methods\<close>

record DocsValidator =
  docs_dir :: string
  mkdocs_file :: string
  errors :: "string list"
  warnings :: "string list"

definition DocsValidator_init :: "string \<Rightarrow> string \<Rightarrow> DocsValidator" where
  "DocsValidator_init d f = \<lparr>docs_dir = d, mkdocs_file = f, errors = [], warnings = []\<rparr>"

text \<open>
  A method returns a value or raises, and leaves the validator changed in either case: what
  was appended before an exception stays appended.
\<close>

datatype 'r outcome = Return 'r | Raise string

type_synonym 'r action = "DocsValidator \<Rightarrow> 'r outcome \<times> DocsValidator"

definition ret :: "'r \<Rightarrow> 'r action" where
  "ret x = (\<lambda>self. (Return x, self))"

definition raise :: "string \<Rightarrow> 'r action" where
  "raise msg = (\<lambda>self. (Raise msg, self))"

definition and_then :: "'q action \<Rightarrow> ('q \<Rightarrow> 'r action) \<Rightarrow> 'r action" where
  "and_then m f =
     (\<lambda>self. case m self of
        (Return x, self') \<Rightarrow> f x self'
      | (Raise msg, self') \<Rightarrow> (Raise msg, self'))"

definition call :: "string + 'r \<Rightarrow> 'r action" where
  "call r = (case r of Inl msg \<Rightarrow> raise msg | Inr x \<Rightarrow> ret x)"

text \<open>\<^verbatim>\<open>self.errors.append(msg)\<close> and \<^verbatim>\<open>self.warnings.append(msg)\<close>.\<close>

definition errors_append :: "string \<Rightarrow> unit action" where
  "errors_append msg = (\<lambda>self. (Return (), self\<lparr>errors := errors self @ [msg]\<rparr>))"

definition warnings_append :: "string \<Rightarrow> unit action" where
  "warnings_append msg = (\<lambda>self. (Return (), self\<lparr>warnings := warnings self @ [msg]\<rparr>))"

text \<open>
  A \<^verbatim>\<open>for\<close> loop whose body updates one local variable (\<^verbatim>\<open>success\<close>, \<^verbatim>\<open>current_level\<close>):
  the body gets the element and the variable's value and returns the new value.
\<close>

fun for_each :: "'x list \<Rightarrow> ('x \<Rightarrow> 's \<Rightarrow> 's action) \<Rightarrow> 's \<Rightarrow> 's action" where
  "for_each [] body s = ret s"
| "for_each (x # xs) body s = and_then (body x s) (for_each xs body)"

text \<open>Python on YAML values: the name of the type, iteration, and \<^verbatim>\<open>config.get('nav', [])\<close>.\<close>

definition quoted :: "string \<Rightarrow> string" where
  "quoted s = CHR 0x27 # s @ [CHR 0x27]"

fun type_name :: "yaml \<Rightarrow> string" where
  "type_name (YStr s) = ''str''"
| "type_name (YScalar t s) = t"
| "type_name (YList xs) = ''list''"
| "type_name (YDict ps) = ''dict''"

fun key_value :: "key \<Rightarrow> yaml" where
  "key_value (KStr s) = YStr s"
| "key_value (KScalar t s) = YScalar t s"

fun py_iter :: "yaml \<Rightarrow> string + yaml list" where
  "py_iter (YList xs) = Inr xs"
| "py_iter (YDict ps) = Inr (map (\<lambda>(k, v). key_value k) ps)"
| "py_iter (YStr s) = Inr (map (\<lambda>c. YStr [c]) s)"
| "py_iter (YScalar t s) = Inl (quoted t @ '' object is not iterable'')"

fun config_get_nav :: "yaml \<Rightarrow> string + yaml" where
  "config_get_nav (YDict ps) =
     (case map_of ps (KStr ''nav'') of Some v \<Rightarrow> Inr v | None \<Rightarrow> Inr (YList []))"
| "config_get_nav other =
     Inl (quoted (type_name other) @ '' object has no attribute '' @ quoted ''get'')"

text \<open>
  \<^verbatim>\<open>check_files_exist\<close>. The inner function \<^verbatim>\<open>check_nav_items\<close> reads \<^verbatim>\<open>self.docs_dir\<close>,
  which nothing assigns during a run; it is the argument \<open>d\<close>. Its two nested loops, over
  the items and over the pairs of an item, share the local variable \<^verbatim>\<open>success\<close>. A value
  that is neither a list nor text makes \<^verbatim>\<open>self.docs_dir / path\<close> raise TypeError.
\<close>

fun nav_items_loop :: "world \<Rightarrow> string \<Rightarrow> yaml list \<Rightarrow> bool \<Rightarrow> bool action"
  and nav_pairs_loop :: "world \<Rightarrow> string \<Rightarrow> (key \<times> yaml) list \<Rightarrow> bool \<Rightarrow> bool action" where
  "nav_items_loop w d [] success = ret success"
| "nav_items_loop w d (item # rest) success =
     and_then
       (case item of
          YDict pairs \<Rightarrow> nav_pairs_loop w d pairs success
        | _ \<Rightarrow> ret success)
       (\<lambda>success. nav_items_loop w d rest success)"
| "nav_pairs_loop w d [] success = ret success"
| "nav_pairs_loop w d ((title, path) # rest) success =
     and_then
       (case path of
          YList children \<Rightarrow>
            and_then (nav_items_loop w d children True) (\<lambda>ok. ret (success \<and> ok))
        | YStr p \<Rightarrow>
            and_then (call (path_exists w (path_join w d p))) (\<lambda>found.
              if \<not> found
              then and_then (errors_append (''Missing file: '' @ path_join w d p))
                     (\<lambda>_. ret False)
              else ret success)
        | other \<Rightarrow>
            raise (''unsupported operand type(s) for /: '' @ quoted ''PosixPath''
                   @ '' and '' @ quoted (type_name other)))
       (\<lambda>success. nav_pairs_loop w d rest success)"

definition check_nav_items :: "world \<Rightarrow> string \<Rightarrow> yaml list \<Rightarrow> bool action" where
  "check_nav_items w d items = nav_items_loop w d items True"

definition check_files_exist :: "world \<Rightarrow> bool action" where
  "check_files_exist w =
     (\<lambda>self.
        and_then (call (safe_load w (mkdocs_file self))) (\<lambda>config.
        and_then (call (config_get_nav config)) (\<lambda>nav.
        and_then (call (py_iter nav)) (\<lambda>items.
          check_nav_items w (docs_dir self) items))) self)"

text \<open>\<^verbatim>\<open>validate_internal_links\<close>.\<close>

definition is_url :: "string \<Rightarrow> bool" where
  "is_url link = (prefix ''http://'' link \<or> prefix ''https://'' link)"

definition validate_internal_links :: "world \<Rightarrow> bool action" where
  "validate_internal_links w =
     (\<lambda>self.
        for_each (rglob_md w (docs_dir self)) (\<lambda>md_file success.
          and_then (call (read_text w md_file)) (\<lambda>content.
            for_each (findall_links w content) (\<lambda>(label, link) success.
              if \<not> is_url link then
                (let link = takeWhile (\<lambda>c. c \<noteq> CHR ''#'') link in
                 if link \<noteq> [] then
                   and_then (call (resolve_beside w md_file link)) (\<lambda>target_path.
                   and_then (call (path_exists w target_path)) (\<lambda>found.
                     if \<not> found
                     then and_then
                            (errors_append (''Broken internal link in '' @ md_file @ '': '' @ link))
                            (\<lambda>_. ret False)
                     else ret success))
                 else ret success)
              else ret success) success)) True self)"

text \<open>\<^verbatim>\<open>validate_code_blocks\<close>: only SyntaxError is handled next to \<^verbatim>\<open>compile\<close>.\<close>

definition validate_code_blocks :: "world \<Rightarrow> bool action" where
  "validate_code_blocks w =
     (\<lambda>self.
        for_each (rglob_md w (docs_dir self)) (\<lambda>md_file success.
          and_then (call (read_text w md_file)) (\<lambda>content.
            for_each (finditer_code_blocks w content) (\<lambda>(lang, code) success.
              if lang = Some ''python'' then
                (case compile_exec w code of
                   Compiled \<Rightarrow> ret success
                 | SyntaxError msg \<Rightarrow>
                     and_then
                       (errors_append (''Invalid Python syntax in '' @ md_file @ '': '' @ msg))
                       (\<lambda>_. ret False)
                 | CompileError msg \<Rightarrow> raise msg)
              else ret success) success)) True self)"

text \<open>
  \<^verbatim>\<open>validate_api_docs\<close>. \<^verbatim>\<open>str.lower\<close> on the code points below 256, and \<^verbatim>\<open>a in b\<close> on text.
\<close>

definition char_lower :: "char \<Rightarrow> char" where
  "char_lower c =
     (let n = (of_char c :: nat) in
      if (65 \<le> n \<and> n \<le> 90) \<or> (192 \<le> n \<and> n \<le> 222 \<and> n \<noteq> 215) then char_of (n + 32) else c)"

definition lower :: "string \<Rightarrow> string" where
  "lower s = map char_lower s"

fun contains :: "string \<Rightarrow> string \<Rightarrow> bool" where
  "contains [] needle = (needle = [])"
| "contains (c # cs) needle = (prefix needle (c # cs) \<or> contains cs needle)"

definition required_sections :: "string list" where
  "required_sections = [''Class Documentation'', ''Methods'', ''Examples'']"

definition validate_api_docs :: "world \<Rightarrow> bool action" where
  "validate_api_docs w =
     (\<lambda>self.
        (let api_dir = path_join w (docs_dir self) ''api'' in
         and_then (call (path_exists w api_dir)) (\<lambda>found.
         if \<not> found
         then and_then (errors_append ''Missing API documentation directory'') (\<lambda>_. ret False)
         else
           (let processor_doc = path_join w api_dir ''data_processor.md'' in
            and_then (call (path_exists w processor_doc)) (\<lambda>found.
            if \<not> found
            then and_then (errors_append ''Missing DataProcessor API documentation'')
                   (\<lambda>_. ret False)
            else
              and_then (call (read_text w processor_doc)) (\<lambda>content.
                for_each required_sections (\<lambda>section success.
                  if \<not> contains (lower content) (lower section)
                  then and_then (errors_append (''Missing section in API docs: '' @ section))
                         (\<lambda>_. ret False)
                  else ret success) True))))) self)"

text \<open>
  \<^verbatim>\<open>validate_navigation\<close>. \<^verbatim>\<open>all(...)\<close> over a generator stops at the first item that is
  not valid.
\<close>

fun key_str :: "key \<Rightarrow> string" where
  "key_str (KStr s) = s"
| "key_str (KScalar t s) = s"

fun is_text_key :: "key \<Rightarrow> bool" where
  "is_text_key (KStr s) = True"
| "is_text_key (KScalar t s) = False"

fun validate_nav_item :: "yaml \<Rightarrow> bool action"
  and nav_pairs_valid :: "(key \<times> yaml) list \<Rightarrow> bool \<Rightarrow> bool action"
  and nav_children_valid :: "yaml list \<Rightarrow> bool \<Rightarrow> bool action" where
  "validate_nav_item (YDict pairs) = nav_pairs_valid pairs True"
| "validate_nav_item (YStr s) = ret True"
| "validate_nav_item (YScalar t s) = ret True"
| "validate_nav_item (YList xs) = ret True"
| "nav_pairs_valid [] success = ret success"
| "nav_pairs_valid ((title, content) # rest) success =
     and_then
       (if \<not> is_text_key title
        then and_then (errors_append (''Invalid navigation title: '' @ key_str title))
               (\<lambda>_. ret False)
        else ret success)
       (\<lambda>success.
          and_then
            (case content of
               YList children \<Rightarrow> nav_children_valid children success
             | _ \<Rightarrow> ret success)
            (\<lambda>success. nav_pairs_valid rest success))"
| "nav_children_valid [] success = ret success"
| "nav_children_valid (child # rest) success =
     and_then (validate_nav_item child) (\<lambda>ok. nav_children_valid rest (success \<and> ok))"

fun all_valid :: "yaml list \<Rightarrow> bool action" where
  "all_valid [] = ret True"
| "all_valid (item # rest) =
     and_then (validate_nav_item item) (\<lambda>ok. if ok then all_valid rest else ret False)"

definition validate_navigation :: "world \<Rightarrow> bool action" where
  "validate_navigation w =
     (\<lambda>self.
        and_then (call (safe_load w (mkdocs_file self))) (\<lambda>config.
        and_then (call (config_get_nav config)) (\<lambda>nav.
        and_then (call (py_iter nav)) all_valid)) self)"

text \<open>\<^verbatim>\<open>check_image_references\<close>.\<close>

definition check_image_references :: "world \<Rightarrow> bool action" where
  "check_image_references w =
     (\<lambda>self.
        for_each (rglob_md w (docs_dir self)) (\<lambda>md_file success.
          and_then (call (read_text w md_file)) (\<lambda>content.
            for_each (findall_images w content) (\<lambda>(alt_text, image_path) success.
              if \<not> is_url image_path then
                and_then (call (resolve_beside w md_file image_path)) (\<lambda>image_file.
                and_then (call (path_exists w image_file)) (\<lambda>found.
                  if \<not> found
                  then and_then
                         (errors_append (''Missing image in '' @ md_file @ '': '' @ image_path))
                         (\<lambda>_. ret False)
                  else ret success))
              else ret success) success)) True self)"

text \<open>
  \<^verbatim>\<open>re.findall(r'^(#{1,6})\s+(.+)$', content, re.MULTILINE)\<close>, on text of code points below
  256. A match starts at the start of a line. The hashes are all the hashes there, one to
  six of them. \<^verbatim>\<open>\s+\<close> takes the whitespace that follows, line ends among it, and the title
  runs from there to the end of its line. Where the whitespace reaches the end of the text,
  \<^verbatim>\<open>\s+\<close> gives characters back until the dot can match one. \<open>heading_at\<close> is the match at
  the start of its argument: the two groups and the length of the match. The search goes
  on where a match ends.
\<close>

definition is_space :: "char \<Rightarrow> bool" where
  "is_space c =
     (c \<in> {CHR 0x09, CHR 0x0A, CHR 0x0B, CHR 0x0C, CHR 0x0D, CHR 0x1C, CHR 0x1D, CHR 0x1E,
            CHR 0x1F, CHR 0x20, CHR 0x85, CHR 0xA0})"

definition heading_at :: "string \<Rightarrow> (string \<times> string \<times> nat) option" where
  "heading_at s =
     (let hashes = takeWhile (\<lambda>c. c = CHR ''#'') s;
          after = drop (length hashes) s;
          spaces = takeWhile is_space after;
          tail = drop (length spaces) after
      in if length hashes < 1 \<or> 6 < length hashes \<or> spaces = [] then None
         else if tail \<noteq> [] then
           (let title = takeWhile (\<lambda>c. c \<noteq> CHR 0x0A) tail
            in Some (hashes, title, length hashes + length spaces + length title))
         else
           (let kept = dropWhile (\<lambda>c. c = CHR 0x0A) (rev (tl spaces))
            in if kept = [] then None
               else Some (hashes, [hd kept], length hashes + length kept + 1)))"

fun scan_headings :: "bool \<Rightarrow> nat \<Rightarrow> string \<Rightarrow> (string \<times> string) list" where
  "scan_headings line_start skip [] = []"
| "scan_headings line_start skip (c # cs) =
     (if 0 < skip then scan_headings (c = CHR 0x0A) (skip - 1) cs
      else if line_start then
        (case heading_at (c # cs) of
           Some (hashes, title, n) \<Rightarrow> (hashes, title) # scan_headings (c = CHR 0x0A) (n - 1) cs
         | None \<Rightarrow> scan_headings (c = CHR 0x0A) 0 cs)
      else scan_headings (c = CHR 0x0A) 0 cs)"

definition findall_headings :: "string \<Rightarrow> (string \<times> string) list" where
  "findall_headings content = scan_headings True 0 content"

text \<open>
  \<^verbatim>\<open>validate_markdown\<close>. The heading loop carries \<^verbatim>\<open>current_level\<close>, which starts at 0 in
  every file; an exception of the rendering is reported and the loop over the files goes on.
\<close>

definition check_headings :: "string \<Rightarrow> (string \<times> string) list \<Rightarrow> nat action" where
  "check_headings md_file headings =
     for_each headings (\<lambda>(hashes, title) current_level.
       (let level = length hashes in
        and_then
          (if int level - int current_level > 1
           then warnings_append (''Skipped heading level in '' @ md_file @ '': '' @ title)
           else ret ())
          (\<lambda>_. ret level))) 0"

definition validate_markdown :: "world \<Rightarrow> bool action" where
  "validate_markdown w =
     (\<lambda>self.
        for_each (rglob_md w (docs_dir self)) (\<lambda>md_file success.
          and_then (call (read_text w md_file)) (\<lambda>content.
          and_then (check_headings md_file (findall_headings content)) (\<lambda>current_level.
            case render_html w content of
              None \<Rightarrow> ret success
            | Some msg \<Rightarrow>
                and_then (errors_append (''Invalid markdown in '' @ md_file @ '': '' @ msg))
                  (\<lambda>_. ret False)))) True self)"

text \<open>
  \<^verbatim>\<open>validate_all\<close>: the seven checks with their names (\<^verbatim>\<open>check.__name__\<close>), and the loop with
  its \<^verbatim>\<open>try\<close> and \<^verbatim>\<open>except Exception\<close>.
\<close>

definition checks :: "world \<Rightarrow> (string \<times> bool action) list" where
  "checks w =
     [(''check_files_exist'', check_files_exist w),
      (''validate_internal_links'', validate_internal_links w),
      (''validate_code_blocks'', validate_code_blocks w),
      (''validate_api_docs'', validate_api_docs w),
      (''validate_navigation'', validate_navigation w),
      (''check_image_references'', check_image_references w),
      (''validate_markdown'', validate_markdown w)]"

fun run_checks :: "(string \<times> bool action) list \<Rightarrow> bool \<Rightarrow> bool action" where
  "run_checks [] success = ret success"
| "run_checks ((name, check) # rest) success =
     (\<lambda>self. case check self of
        (Return ok, self') \<Rightarrow> run_checks rest (if \<not> ok then False else success) self'
      | (Raise msg, self') \<Rightarrow>
          run_checks rest False
            (self'\<lparr>errors := errors self' @ [''Error in '' @ name @ '': '' @ msg]\<rparr>))"

definition validate_all :: "world \<Rightarrow> bool action" where
  "validate_all w = run_checks (checks w) True"

text \<open>
  \<^verbatim>\<open>print_report\<close> reads the two lists and calls \<^verbatim>\<open>console.print\<close> up to three times: the
  heading, the table of the errors and the table of the warnings when there are any, and
  the closing line when both lists are empty. Nothing handles an exception of the console:
  the calls after it are not made. The result is what was printed, and the message of the
  exception if there was one.
\<close>

fun print_all :: "world \<Rightarrow> printable list \<Rightarrow> printable list \<times> string option" where
  "print_all w [] = ([], None)"
| "print_all w (x # xs) =
     (case console_print w x of
        Some msg \<Rightarrow> ([], Some msg)
      | None \<Rightarrow> (case print_all w xs of (printed, raised) \<Rightarrow> (x # printed, raised)))"

definition print_report :: "world \<Rightarrow> DocsValidator \<Rightarrow> printable list \<times> string option" where
  "print_report w self =
     print_all w
       ([Plain ([CHR 0x0A] @ ''=== Documentation Validation Report ==='' @ [CHR 0x0A])] @
        (if errors self \<noteq> [] then [Table ''Errors'' ''red'' ''Error Message'' (errors self)]
         else []) @
        (if warnings self \<noteq> []
         then [Table ''Warnings'' ''yellow'' ''Warning Message'' (warnings self)]
         else []) @
        (if errors self = [] \<and> warnings self = []
         then [Styled ([CHR 0x0A, CHR 0xE2, CHR 0x9C, CHR 0x85]
                       @ '' All documentation checks passed!'' @ [CHR 0x0A]) ''green bold'']
         else []))"

text \<open>
  \<^verbatim>\<open>main\<close> makes a validator with the default arguments, runs it, prints the report and
  exits with 0 or 1. The result is what was printed and the exit status. An exception that
  leaves \<^verbatim>\<open>print_report\<close>, or would leave \<^verbatim>\<open>validate_all\<close>, ends the process with status 1
  before \<^verbatim>\<open>sys.exit\<close> is reached.
\<close>

definition main :: "world \<Rightarrow> printable list \<times> int" where
  "main w =
     (let validator = DocsValidator_init ''docs'' ''mkdocs.yml'' in
      case validate_all w validator of
        (Return success, validator') \<Rightarrow>
          (case print_report w validator' of
             (printed, None) \<Rightarrow> (printed, if success then 0 else 1)
           | (printed, Some msg) \<Rightarrow> (printed, 1))
      | (Raise msg, validator') \<Rightarrow> ([], 1))"

subsection \<open>A documentation tree\<close>

text \<open>
  A small site: a manifest with a page and a section of one page, an index page that opens
  with a second-level heading, and the API page with its three sections. \<open>present\<close> lists
  the paths that exist. The pages hold no link, image or code block. Its console refuses,
  as \<^verbatim>\<open>rich\<close> does, a table with a row that closes a markup tag nothing has opened; no row
  of these sites opens one. \<open>tagged_site\<close> is the site with every file present and another
  index page, whose heading has such a tag.
\<close>

definition sample_console :: "printable \<Rightarrow> string option" where
  "sample_console p =
     (case p of
        Table title style header table_rows \<Rightarrow>
          (if \<exists>row \<in> set table_rows. contains row ''[/''
           then Some ''closing tag does not match any open tag'' else None)
      | _ \<Rightarrow> None)"

definition site_manifest :: yaml where
  "site_manifest =
     YDict [(KStr ''site_name'', YStr ''Demo''),
            (KStr ''nav'',
             YList [YDict [(KStr ''Home'', YStr ''index.md'')],
                    YDict [(KStr ''Guide'',
                            YList [YDict [(KStr ''Setup'', YStr ''guide/setup.md'')]])]])]"

definition site :: "string list \<Rightarrow> world" where
  "site present =
     \<lparr>safe_load = (\<lambda>f. if f = ''mkdocs.yml'' then Inr site_manifest
                         else Inl ''No such file or directory''),
      path_join = (\<lambda>a b. a @ ''/'' @ b),
      path_exists = (\<lambda>p. Inr (p \<in> set present)),
      rglob_md = (\<lambda>d. if d = ''docs'' then [''docs/api/data_processor.md'', ''docs/index.md'']
                        else []),
      read_text = (\<lambda>f.
        if f = ''docs/index.md'' then Inr (''## Welcome'' @ [CHR 0x0A] @ ''Hello.'' @ [CHR 0x0A])
        else if f = ''docs/api/data_processor.md''
        then Inr (''# Class Documentation'' @ [CHR 0x0A] @ ''## Methods'' @ [CHR 0x0A]
                  @ ''## Examples'' @ [CHR 0x0A])
        else Inl ''No such file or directory''),
      resolve_beside = (\<lambda>f p. Inr (f @ ''/../'' @ p)),
      findall_links = (\<lambda>content. []),
      finditer_code_blocks = (\<lambda>content. []),
      compile_exec = (\<lambda>code. Compiled),
      findall_images = (\<lambda>content. []),
      render_html = (\<lambda>content. None),
      console_print = sample_console\<rparr>"

definition all_present :: "string list" where
  "all_present =
     [''docs/index.md'', ''docs/guide/setup.md'', ''docs/api'', ''docs/api/data_processor.md'']"

definition setup_missing :: "string list" where
  "setup_missing = [''docs/index.md'', ''docs/api'', ''docs/api/data_processor.md'']"

definition tagged_site :: world where
  "tagged_site =
     (site all_present)\<lparr>read_text := (\<lambda>f.
        if f = ''docs/index.md'' then Inr (''## Mount the [/data] volume'' @ [CHR 0x0A])
        else read_text (site all_present) f)\<rparr>"

subsection \<open>What a method does to the report\<close>

text \<open>
  For the properties: a validator with its report emptied, and with entries appended; what
  a method returns and what it records when it starts from the emptied report. A method is
  \<open>framed\<close> when it only appends to the two lists and the report it finds has no influence on
  what it appends or returns. A boolean method \<open>tracks\<close> \<open>s\<close> when it never shortens the errors
  and returns True exactly when \<open>s\<close> holds and it has appended no error. A method is \<open>quiet\<close>
  when it leaves the errors as they are.
\<close>

definition clear :: "DocsValidator \<Rightarrow> DocsValidator" where
  "clear self = self\<lparr>errors := [], warnings := []\<rparr>"

definition emit :: "string list \<Rightarrow> string list \<Rightarrow> DocsValidator \<Rightarrow> DocsValidator" where
  "emit es ws self = self\<lparr>errors := errors self @ es, warnings := warnings self @ ws\<rparr>"

definition outcome_of :: "'r action \<Rightarrow> DocsValidator \<Rightarrow> 'r outcome" where
  "outcome_of m self = fst (m (clear self))"

definition errors_of :: "'r action \<Rightarrow> DocsValidator \<Rightarrow> string list" where
  "errors_of m self = errors (snd (m (clear self)))"

definition warnings_of :: "'r action \<Rightarrow> DocsValidator \<Rightarrow> string list" where
  "warnings_of m self = warnings (snd (m (clear self)))"

definition framed :: "'r action \<Rightarrow> bool" where
  "framed m =
     (\<forall>self. \<exists>r es ws. \<forall>es0 ws0.
        m (self\<lparr>errors := es0, warnings := ws0\<rparr>)
          = (r, self\<lparr>errors := es0 @ es, warnings := ws0 @ ws\<rparr>))"

definition tracks :: "bool action \<Rightarrow> bool \<Rightarrow> bool" where
  "tracks m s =
     (\<forall>self r self'. m self = (r, self') \<longrightarrow>
        length (errors self) \<le> length (errors self')
        \<and> (\<forall>ok. r = Return ok \<longrightarrow> (ok \<longleftrightarrow> s \<and> length (errors self') = length (errors self))))"

definition quiet :: "'r action \<Rightarrow> bool" where
  "quiet m = (\<forall>self r self'. m self = (r, self') \<longrightarrow> errors self' = errors self)"

text \<open>The line \<^verbatim>\<open>validate_all\<close> records for a check that raised.\<close>

definition caught :: "string \<Rightarrow> bool outcome \<Rightarrow> string list" where
  "caught name r =
     (case r of Raise msg \<Rightarrow> [''Error in '' @ name @ '': '' @ msg] | Return ok \<Rightarrow> [])"

text \<open>
  The leaves of a navigation list, as \<^verbatim>\<open>check_nav_items\<close> walks it: of every item that is a
  dictionary, the values that are not lists, and the leaves of those that are. \<open>missing\<close>
  are the paths, of a list, for which \<^verbatim>\<open>exists()\<close> under \<open>d\<close> answers False, and \<open>reported\<close> is
  the validator with one error for each of them.
\<close>

fun nav_leaves :: "yaml list \<Rightarrow> yaml list"
  and pair_leaves :: "(key \<times> yaml) list \<Rightarrow> yaml list" where
  "nav_leaves [] = []"
| "nav_leaves (item # rest) =
     (case item of YDict pairs \<Rightarrow> pair_leaves pairs | _ \<Rightarrow> []) @ nav_leaves rest"
| "pair_leaves [] = []"
| "pair_leaves ((title, path) # rest) =
     (case path of YList children \<Rightarrow> nav_leaves children | _ \<Rightarrow> [path]) @ pair_leaves rest"

definition missing :: "world \<Rightarrow> string \<Rightarrow> string list \<Rightarrow> string list" where
  "missing w d ps = filter (\<lambda>p. path_exists w (path_join w d p) = Inr False) ps"

definition reported :: "world \<Rightarrow> string \<Rightarrow> string list \<Rightarrow> DocsValidator \<Rightarrow> DocsValidator" where
  "reported w d ps self =
     self\<lparr>errors := errors self @ map (\<lambda>p. ''Missing file: '' @ path_join w d p) (missing w d ps)\<rparr>"

text \<open>What the loop of \<^verbatim>\<open>validate_markdown\<close> does for one file, and the loop of the headings
  for one heading.\<close>

definition markdown_file :: "world \<Rightarrow> string \<Rightarrow> bool \<Rightarrow> bool action" where
  "markdown_file w md_file success =
     and_then (call (read_text w md_file)) (\<lambda>content.
     and_then (check_headings md_file (findall_headings content)) (\<lambda>current_level.
       case render_html w content of
         None \<Rightarrow> ret success
       | Some msg \<Rightarrow>
           and_then (errors_append (''Invalid markdown in '' @ md_file @ '': '' @ msg))
             (\<lambda>_. ret False)))"

definition heading_step :: "string \<Rightarrow> string \<times> string \<Rightarrow> nat \<Rightarrow> nat action" where
  "heading_step md_file =
     (\<lambda>(hashes, title) current_level.
       (let level = length hashes in
        and_then
          (if int level - int current_level > 1
           then warnings_append (''Skipped heading level in '' @ md_file @ '': '' @ title)
           else ret ())
          (\<lambda>_. ret level)))"

section \<open>Properties of the tabular processor\<close>

lemma keep_first_subset: "set (keep_first seen xs) \<subseteq> set xs"
  by (induction seen xs rule: keep_first.induct) auto

lemma keep_first_subseq: "subseq (keep_first seen xs) xs"
  by (induction seen xs rule: keep_first.induct) auto

lemma keep_first_fresh:
  "(l, c) \<in> set (keep_first seen xs) \<Longrightarrow> c \<notin> set seen"
  by (induction seen xs rule: keep_first.induct) (auto split: if_splits)

lemma keep_first_distinct: "distinct (map snd (keep_first seen xs))"
proof (induction seen xs rule: keep_first.induct)
  case (1 seen)
  show ?case by simp
next
  case (2 seen label cells rest)
  show ?case
  proof (cases "cells \<in> set seen")
    case True
    with 2 show ?thesis by simp
  next
    case False
    have "cells \<notin> snd ` set (keep_first (cells # seen) rest)"
      using keep_first_fresh [of _ cells "cells # seen" rest] by auto
    with False 2 show ?thesis by simp
  qed
qed

lemma keep_first_id:
  "distinct (map snd xs) \<Longrightarrow> \<forall>x \<in> set xs. snd x \<notin> set seen \<Longrightarrow> keep_first seen xs = xs"
  by (induction seen xs rule: keep_first.induct) (auto simp: image_iff)

lemma keep_first_idem: "keep_first [] (keep_first [] xs) = keep_first [] xs"
  by (rule keep_first_id) (simp_all add: keep_first_distinct)

lemma drop_duplicates_idem: "drop_duplicates (drop_duplicates df) = drop_duplicates df"
  by (simp add: drop_duplicates_def frame_empty_def keep_first_idem)

lemma filter_keep_first:
  "\<forall>x \<in> set xs. P x \<Longrightarrow> filter P (keep_first seen xs) = keep_first seen xs"
  using keep_first_subset [of seen xs] by (auto simp: filter_id_conv)

lemma dropna_clean: "dropna (drop_duplicates (dropna df)) = drop_duplicates (dropna df)"
  by (simp add: dropna_def drop_duplicates_def frame_empty_def filter_keep_first)

lemma table_of_clean_data:
  "table_of (clean_data st self) = drop_duplicates (dropna (frames st (data self)))"
  by (simp add: table_of_def clean_data_def new_frame_def Let_def)

lemma extends_refl: "extends st st"
  by (simp add: extends_def)

lemma extends_trans: "extends a b \<Longrightarrow> extends b c \<Longrightarrow> extends a c"
  by (auto simp: extends_def)

lemma new_frame_extends: "new_frame st df = (r, st') \<Longrightarrow> extends st st'"
  by (auto simp: new_frame_def extends_def)

lemma new_frame_result:
  "new_frame st df = (r, st') \<Longrightarrow> r = next_ref st \<and> next_ref st' = Suc r \<and> frames st' r = df"
  by (auto simp: new_frame_def)

lemma mask_subseq: "subseq (map snd (filter fst (zip flags xs))) xs"
proof (induction xs arbitrary: flags)
  case Nil
  show ?case by simp
next
  case (Cons x xs)
  show ?case
  proof (cases flags)
    case Nil
    then show ?thesis by simp
  next
    case (Cons b bs)
    with Cons.IH [of bs] show ?thesis by auto
  qed
qed

lemma getitem_mask_frame:
  "columns (getitem_mask df flags) = columns df \<and> subseq (rows (getitem_mask df flags)) (rows df)"
  by (simp add: getitem_mask_def mask_subseq)

lemma select_rows_store: "select_rows lib st r column cmp v = (res, st') \<Longrightarrow> extends st st'"
  by (auto simp: select_rows_def new_frame_def extends_def split: sum.splits)

lemma select_rows_result:
  "select_rows lib st r column cmp v = (Inr r', st') \<Longrightarrow>
     r' = next_ref st \<and> columns (frames st' r') = columns (frames st r)
       \<and> subseq (rows (frames st' r')) (rows (frames st r))"
  by (auto simp: select_rows_def new_frame_def getitem_mask_frame split: sum.splits)

lemma filter_loop_step:
  "filter_loop lib st r ((column, operator, v) # conditions) =
     (case comparison_of operator of
        None \<Rightarrow> (Inl (ValueError (''Unsupported operator: '' @ operator)), st)
      | Some cmp \<Rightarrow>
          (case select_rows lib st r column cmp v of
             (Inl e, st') \<Rightarrow> (Inl e, st')
           | (Inr r', st') \<Rightarrow> filter_loop lib st' r' conditions))"
  by (simp add: comparison_of_def)

lemma filter_loop_store: "filter_loop lib st r conditions = (res, st') \<Longrightarrow> extends st st'"
proof (induction conditions arbitrary: st r)
  case Nil
  then show ?case by (simp add: extends_refl)
next
  case (Cons c conditions)
  obtain column operator v where c: "c = (column, operator, v)"
    by (cases c)
  show ?case
  proof (cases "comparison_of operator")
    case None
    with Cons.prems c show ?thesis
      by (simp add: filter_loop_step extends_refl del: filter_loop.simps)
  next
    case (Some cmp)
    obtain res1 st1 where s: "select_rows lib st r column cmp v = (res1, st1)"
      by (cases "select_rows lib st r column cmp v")
    have e1: "extends st st1"
      using s by (rule select_rows_store)
    show ?thesis
    proof (cases res1)
      case (Inl e)
      with Cons.prems c Some s e1 show ?thesis
        by (simp add: filter_loop_step del: filter_loop.simps)
    next
      case (Inr r1)
      with Cons.prems c Some s have "filter_loop lib st1 r1 conditions = (res, st')"
        by (simp add: filter_loop_step del: filter_loop.simps)
      then have "extends st1 st'"
        by (rule Cons.IH)
      with e1 show ?thesis
        by (rule extends_trans)
    qed
  qed
qed

lemma filter_loop_result:
  "filter_loop lib st r conditions = (Inr r', st') \<Longrightarrow>
     (r' = r \<or> next_ref st \<le> r' \<and> r' < next_ref st')
       \<and> columns (frames st' r') = columns (frames st r)
       \<and> subseq (rows (frames st' r')) (rows (frames st r))"
proof (induction conditions arbitrary: st r)
  case Nil
  then show ?case by simp
next
  case (Cons c conditions)
  obtain column operator v where c: "c = (column, operator, v)"
    by (cases c)
  from Cons.prems c obtain cmp where cmp: "comparison_of operator = Some cmp"
    by (cases "comparison_of operator") (simp_all add: filter_loop_step del: filter_loop.simps)
  obtain res1 st1 where s: "select_rows lib st r column cmp v = (res1, st1)"
    by (cases "select_rows lib st r column cmp v")
  from Cons.prems c cmp s obtain r1 where r1: "res1 = Inr r1"
    and rest: "filter_loop lib st1 r1 conditions = (Inr r', st')"
    by (cases res1) (simp_all add: filter_loop_step del: filter_loop.simps)
  from s r1 have first: "r1 = next_ref st" "columns (frames st1 r1) = columns (frames st r)"
    "subseq (rows (frames st1 r1)) (rows (frames st r))"
    using select_rows_result [of lib st r column cmp v r1 st1] by blast+
  from s have "extends st st1"
    by (rule select_rows_store)
  then have le: "next_ref st \<le> next_ref st1"
    by (simp add: extends_def)
  from s r1 have "next_ref st1 = Suc r1"
    by (auto simp: select_rows_def new_frame_def split: sum.splits)
  moreover from rest have "next_ref st1 \<le> next_ref st'"
    using filter_loop_store [of lib st1 r1 conditions "Inr r'" st'] by (simp add: extends_def)
  ultimately have r1_lt: "r1 < next_ref st'"
    by simp
  from Cons.IH [OF rest] have later: "r' = r1 \<or> next_ref st1 \<le> r' \<and> r' < next_ref st'"
    "columns (frames st' r') = columns (frames st1 r1)"
    "subseq (rows (frames st' r')) (rows (frames st1 r1))"
    by simp_all
  from later(1) first(1) le r1_lt have "next_ref st \<le> r' \<and> r' < next_ref st'"
    by auto
  moreover from later(2) first(2) have "columns (frames st' r') = columns (frames st r)"
    by simp
  moreover from later(3) first(3) have "subseq (rows (frames st' r')) (rows (frames st r))"
    using subseq_order.trans by blast
  ultimately show ?case
    by simp
qed

lemmas sample_defs = sample_store_def sample_data_def sample_processor_def numeric_library_def

lemmas frame_ops = getitem_column_def getitem_mask_def cell_at_def then_err_def new_frame_def

lemma filter_data_copy:
  "filter_data lib st self conditions =
     filter_loop lib (snd (new_frame st (frames st (data self)))) (next_ref st) conditions"
  by (simp add: filter_data_def new_frame_def)

lemma clean_frame:
  "columns (drop_duplicates (dropna df)) = columns df
     \<and> subseq (rows (drop_duplicates (dropna df))) (rows df)"
proof -
  have "subseq (keep_first [] (filter P (rows df))) (rows df)" for P
    using keep_first_subseq [of "[]" "filter P (rows df)"] subseq_filter_left [of P "rows df"]
      subseq_order.trans by blast
  then show ?thesis
    by (simp add: dropna_def drop_duplicates_def frame_empty_def)
qed

subsection \<open>Filtering with no condition\<close>

text \<open>
  C4. For every table, \<^verbatim>\<open>filter_data\<close> with the empty condition list returns normally, and
  the frame it returns is equal to the stored one.
\<close>

theorem filter_data_no_conditions:
  "\<exists>r. fst (filter_data lib st self []) = Inr r
     \<and> frames (snd (filter_data lib st self [])) r = frames st (data self)"
  by (simp add: filter_data_def new_frame_def)

theorem filter_data_no_conditions_witness:
  "fst (filter_data numeric_library sample_store sample_processor []) = Inr 1
     \<and> frames (snd (filter_data numeric_library sample_store sample_processor [])) 1 = sample_data"
  using filter_data_no_conditions [of numeric_library sample_store sample_processor]
  by (simp add: filter_data_def sample_defs frame_ops)

subsection \<open>Cleaning twice\<close>

text \<open>
  C5. \<^verbatim>\<open>clean_data\<close> is idempotent: the table the processor holds after cleaning twice is
  equal to the table it holds after cleaning once.
\<close>

theorem clean_data_idempotent:
  "table_of (case_prod clean_data (clean_data st self)) = table_of (clean_data st self)"
proof -
  obtain st1 self1 where c1: "clean_data st self = (st1, self1)"
    by (cases "clean_data st self")
  have once: "table_of (st1, self1) = drop_duplicates (dropna (frames st (data self)))"
    using table_of_clean_data [of st self] by (simp add: c1)
  have "table_of (clean_data st1 self1) = drop_duplicates (dropna (frames st1 (data self1)))"
    by (rule table_of_clean_data)
  also have "frames st1 (data self1) = table_of (st1, self1)"
    by (simp add: table_of_def)
  also have "drop_duplicates (dropna (table_of (st1, self1))) = table_of (st1, self1)"
    by (simp add: once dropna_clean drop_duplicates_idem)
  finally show ?thesis
    by (simp add: c1)
qed

theorem clean_data_idempotent_witness:
  "rows (table_of (case_prod clean_data (clean_data sample_store sample_processor))) =
     [(0, [Some (Num 1), Some (Num 10), Some (Text ''A''), Some (Num 1)]),
      (2, [Some (Num 3), Some (Num 30), Some (Text ''A''), Some (Num 3)]),
      (4, [Some (Num 5), Some (Num 50), Some (Text ''B''), Some (Num 5)])]"
  using clean_data_idempotent [of sample_store sample_processor]
  by (simp add: table_of_clean_data dropna_def drop_duplicates_def frame_empty_def sample_defs)

subsection \<open>Filtering leaves the stored table alone\<close>

text \<open>
  C6. For every store in which the processor's frame exists, and every condition list,
  also one that makes \<^verbatim>\<open>filter_data\<close> raise part of the way: after the call the stored
  frame is what it was, and a frame that is returned is a new object, one that did not
  exist before the call and so is not the stored one.
\<close>

theorem filter_data_keeps_stored:
  assumes "data self < next_ref st"
  shows "frames (snd (filter_data lib st self conditions)) (data self) = frames st (data self)
    \<and> (\<forall>r. fst (filter_data lib st self conditions) = Inr r \<longrightarrow>
          r \<noteq> data self \<and> next_ref st \<le> r \<and> r < next_ref (snd (filter_data lib st self conditions)))"
proof -
  obtain r0 st0 where n: "new_frame st (frames st (data self)) = (r0, st0)"
    by (cases "new_frame st (frames st (data self))")
  obtain res st' where f: "filter_loop lib st0 r0 conditions = (res, st')"
    by (cases "filter_loop lib st0 r0 conditions")
  have fd: "filter_data lib st self conditions = (res, st')"
    by (simp add: filter_data_def n f)
  from n have e0: "extends st st0" by (rule new_frame_extends)
  from f have e1: "extends st0 st'" by (rule filter_loop_store)
  from e0 e1 have e: "extends st st'" by (rule extends_trans)
  with assms have kept: "frames st' (data self) = frames st (data self)"
    by (simp add: extends_def)
  from n have r0: "r0 = next_ref st" "next_ref st0 = Suc r0"
    using new_frame_result by fastforce+
  have "r \<noteq> data self \<and> next_ref st \<le> r \<and> r < next_ref st'" if "res = Inr r" for r
  proof -
    from f that have "r = r0 \<or> next_ref st0 \<le> r \<and> r < next_ref st'"
      using filter_loop_result [of lib st0 r0 conditions r st'] by simp
    moreover from e1 r0 have "r0 < next_ref st'"
      by (simp add: extends_def)
    ultimately show ?thesis
      using r0 assms by auto
  qed
  with kept fd show ?thesis by simp
qed

theorem filter_data_keeps_stored_witness:
  "data sample_processor < next_ref sample_store
     \<and> fst (filter_data numeric_library sample_store sample_processor
          [(''value'', ''greater_than'', Num 20), (''category'', ''equals'', Text ''A'')]) = Inr 3
     \<and> frames (snd (filter_data numeric_library sample_store sample_processor
          [(''value'', ''greater_than'', Num 20), (''category'', ''equals'', Text ''A'')])) 0 = sample_data
     \<and> fst (filter_data numeric_library sample_store sample_processor
          [(''value'', ''greater_than'', Num 20), (''category'', ''above'', Text ''A'')])
         = Inl (ValueError ''Unsupported operator: above'')
     \<and> frames (snd (filter_data numeric_library sample_store sample_processor
          [(''value'', ''greater_than'', Num 20), (''category'', ''above'', Text ''A'')])) 0 = sample_data"
proof -
  have a: "data sample_processor < next_ref sample_store"
    by (simp add: sample_defs)
  have b: "fst (filter_data numeric_library sample_store sample_processor
          [(''value'', ''greater_than'', Num 20), (''category'', ''equals'', Text ''A'')]) = Inr 3"
    by (simp add: filter_data_def select_rows_def sample_defs frame_ops)
  have c: "fst (filter_data numeric_library sample_store sample_processor
          [(''value'', ''greater_than'', Num 20), (''category'', ''above'', Text ''A'')])
         = Inl (ValueError ''Unsupported operator: above'')"
    by (simp add: filter_data_def select_rows_def sample_defs frame_ops)
  have d: "frames sample_store (data sample_processor) = sample_data"
    by (simp add: sample_store_def sample_processor_def)
  have e: "data sample_processor = 0"
    by (simp add: sample_processor_def)
  show ?thesis
    using filter_data_keeps_stored [OF a, of numeric_library
        "[(''value'', ''greater_than'', Num 20), (''category'', ''equals'', Text ''A'')]"]
      filter_data_keeps_stored [OF a, of numeric_library
        "[(''value'', ''greater_than'', Num 20), (''category'', ''above'', Text ''A'')]"]
      a b c d e by simp
qed

subsection \<open>Columns\<close>

text \<open>
  C7. The frame \<^verbatim>\<open>filter_data\<close> returns, for every condition list it accepts, and the
  frame the processor holds after \<^verbatim>\<open>clean_data\<close>, have the columns of the stored frame, the
  same labels in the same order; their rows are rows of the stored frame, in its order.
\<close>

theorem columns_preserved:
  "(\<forall>r. fst (filter_data lib st self conditions) = Inr r \<longrightarrow>
      columns (frames (snd (filter_data lib st self conditions)) r) = columns (frames st (data self))
      \<and> subseq (rows (frames (snd (filter_data lib st self conditions)) r))
           (rows (frames st (data self))))
   \<and> columns (table_of (clean_data st self)) = columns (frames st (data self))
   \<and> subseq (rows (table_of (clean_data st self))) (rows (frames st (data self)))"
proof -
  let ?st0 = "snd (new_frame st (frames st (data self)))"
  have copy: "frames ?st0 (next_ref st) = frames st (data self)"
    by (simp add: new_frame_def)
  have "columns (frames st' r) = columns (frames st (data self))
      \<and> subseq (rows (frames st' r)) (rows (frames st (data self)))"
    if "filter_data lib st self conditions = (Inr r, st')" for r st'
    using filter_loop_result [of lib ?st0 "next_ref st" conditions r st'] that copy
    by (simp add: filter_data_copy)
  then have "columns (frames (snd (filter_data lib st self conditions)) r) = columns (frames st (data self))
      \<and> subseq (rows (frames (snd (filter_data lib st self conditions)) r))
           (rows (frames st (data self)))"
    if "fst (filter_data lib st self conditions) = Inr r" for r
    using that by (cases "filter_data lib st self conditions") simp
  then show ?thesis
    using clean_frame [of "frames st (data self)"] by (simp add: table_of_clean_data)
qed

theorem columns_preserved_witness:
  "fst (filter_data numeric_library sample_store sample_processor
          [(''value'', ''greater_than'', Num 20), (''category'', ''equals'', Text ''A'')]) = Inr 3
   \<and> frames (snd (filter_data numeric_library sample_store sample_processor
          [(''value'', ''greater_than'', Num 20), (''category'', ''equals'', Text ''A'')])) 3
       = \<lparr>columns = [''id'', ''value'', ''category'', ''nullable''],
          rows = [(2, [Some (Num 3), Some (Num 30), Some (Text ''A''), Some (Num 3)])]\<rparr>
   \<and> columns (table_of (clean_data sample_store sample_processor))
       = [''id'', ''value'', ''category'', ''nullable'']"
  using columns_preserved [of numeric_library sample_store sample_processor
        "[(''value'', ''greater_than'', Num 20), (''category'', ''equals'', Text ''A'')]"]
  by (simp add: filter_data_def select_rows_def sample_defs frame_ops table_of_clean_data
      dropna_def drop_duplicates_def frame_empty_def)

subsection \<open>Statistics\<close>

text \<open>
  C8, as the code has it. When no column has the label, \<^verbatim>\<open>calculate_statistics\<close> raises
  its ValueError (\<^verbatim>\<open>Column ... not found in data\<close>) and nothing else. When a column has
  it, the method raises nothing of its own: it returns the dictionary of the five values
  when the library's five reductions of the column succeed; when one of them raises, the
  call raises, and what it raises is the error of the first reduction that raised, in the
  order mean, median, std, min, max; so an error it raises is the error of one of these
  reductions.
\<close>

theorem calculate_statistics_cases:
  "(column \<notin> set (columns (frames st (data self))) \<longrightarrow>
      calculate_statistics lib st self column =
        Inl (ValueError (''Column '' @ column @ '' not found in data'')))
   \<and> (column \<in> set (columns (frames st (data self))) \<longrightarrow>
        (\<forall>a b c d e.
           column_reduce lib (frames st (data self)) column RMean = Inr a
           \<and> column_reduce lib (frames st (data self)) column RMedian = Inr b
           \<and> column_reduce lib (frames st (data self)) column RStd = Inr c
           \<and> column_reduce lib (frames st (data self)) column RMin = Inr d
           \<and> column_reduce lib (frames st (data self)) column RMax = Inr e
           \<longrightarrow> calculate_statistics lib st self column =
                 Inr [(''mean'', a), (''median'', b), (''std'', c), (''min'', d), (''max'', e)])
        \<and> (\<forall>err. calculate_statistics lib st self column = Inl err \<longrightarrow>
              (\<exists>red. column_reduce lib (frames st (data self)) column red = Inl err))
        \<and> (\<forall>red err. column_reduce lib (frames st (data self)) column red = Inl err \<longrightarrow>
              (\<exists>raised. calculate_statistics lib st self column = Inl raised))
        \<and> (\<forall>err. first_error (map (column_reduce lib (frames st (data self)) column)
                                [RMean, RMedian, RStd, RMin, RMax]) = Some err \<longrightarrow>
              calculate_statistics lib st self column = Inl err))"
proof (intro conjI impI allI)
  assume "column \<notin> set (columns (frames st (data self)))"
  then show "calculate_statistics lib st self column =
      Inl (ValueError (''Column '' @ column @ '' not found in data''))"
    by (simp add: calculate_statistics_def)
next
  fix a b c d e
  assume "column \<in> set (columns (frames st (data self)))"
    and "column_reduce lib (frames st (data self)) column RMean = Inr a
           \<and> column_reduce lib (frames st (data self)) column RMedian = Inr b
           \<and> column_reduce lib (frames st (data self)) column RStd = Inr c
           \<and> column_reduce lib (frames st (data self)) column RMin = Inr d
           \<and> column_reduce lib (frames st (data self)) column RMax = Inr e"
  then show "calculate_statistics lib st self column =
      Inr [(''mean'', a), (''median'', b), (''std'', c), (''min'', d), (''max'', e)]"
    by (simp add: calculate_statistics_def then_err_def)
next
  fix err
  assume "column \<in> set (columns (frames st (data self)))"
    and "calculate_statistics lib st self column = Inl err"
  then show "\<exists>red. column_reduce lib (frames st (data self)) column red = Inl err"
    by (auto simp: calculate_statistics_def then_err_def Let_def split: sum.splits)
next
  fix red err
  assume present: "column \<in> set (columns (frames st (data self)))"
    and fails: "column_reduce lib (frames st (data self)) column red = Inl err"
  show "\<exists>raised. calculate_statistics lib st self column = Inl raised"
    using present fails
    by (cases red)
      (auto simp: calculate_statistics_def then_err_def Let_def split: sum.splits)
next
  fix err
  assume "column \<in> set (columns (frames st (data self)))"
    and "first_error (map (column_reduce lib (frames st (data self)) column)
           [RMean, RMedian, RStd, RMin, RMax]) = Some err"
  then show "calculate_statistics lib st self column = Inl err"
    by (auto simp: calculate_statistics_def then_err_def Let_def split: sum.splits)
qed

theorem calculate_statistics_cases_witness:
  "''value'' \<in> set (columns (frames sample_store (data sample_processor)))
   \<and> calculate_statistics numeric_library sample_store sample_processor ''value'' =
       Inr [(''mean'', Val 30), (''median'', Val 30), (''std'', Sqrt 250),
            (''min'', Val 10), (''max'', Val 50)]
   \<and> ''price'' \<notin> set (columns (frames sample_store (data sample_processor)))
   \<and> calculate_statistics numeric_library sample_store sample_processor ''price'' =
       Inl (ValueError ''Column price not found in data'')
   \<and> first_error (map (column_reduce numeric_library
          (frames sample_store (data sample_processor)) ''category'')
          [RMean, RMedian, RStd, RMin, RMax]) = Some (TypeError ''Could not convert text to numeric'')"
  using calculate_statistics_cases [of "''value''" sample_store sample_processor numeric_library]
    calculate_statistics_cases [of "''price''" sample_store sample_processor numeric_library]
    calculate_statistics_cases [of "''category''" sample_store sample_processor numeric_library]
  by (simp add: calculate_statistics_def column_reduce_def sample_defs frame_ops has_text_def
      numbers_def average_def power2_eq_square)

text \<open>
  The claim as stated promises the dictionary for every column that is present. The
  \<^verbatim>\<open>category\<close> column of the test fixture is present and holds text: the mean is refused,
  and the caller gets the TypeError.
\<close>

theorem statistics_text_column_counterexample:
  "''category'' \<in> set (columns (frames sample_store (data sample_processor)))
   \<and> calculate_statistics numeric_library sample_store sample_processor ''category'' =
       Inl (TypeError ''Could not convert text to numeric'')"
  by (simp add: calculate_statistics_def column_reduce_def sample_defs frame_ops has_text_def)

section \<open>Properties of the documentation validator\<close>

subsection \<open>Methods only append to the report\<close>

named_theorems framed_intros

lemma framedI:
  assumes "\<And>self. \<exists>r es ws. \<forall>es0 ws0.
        m (self\<lparr>errors := es0, warnings := ws0\<rparr>)
          = (r, self\<lparr>errors := es0 @ es, warnings := ws0 @ ws\<rparr>)"
  shows "framed m"
  using assms by (simp add: framed_def)

lemma framed_ret [framed_intros]: "framed (ret x)"
proof (rule framedI)
  fix self
  have "\<forall>es0 ws0. ret x (self\<lparr>errors := es0, warnings := ws0\<rparr>)
      = (Return x, self\<lparr>errors := es0 @ [], warnings := ws0 @ []\<rparr>)"
    by (simp add: ret_def)
  then show "\<exists>r es ws. \<forall>es0 ws0. ret x (self\<lparr>errors := es0, warnings := ws0\<rparr>)
      = (r, self\<lparr>errors := es0 @ es, warnings := ws0 @ ws\<rparr>)"
    by blast
qed

lemma framed_raise [framed_intros]: "framed (raise msg)"
proof (rule framedI)
  fix self
  have "\<forall>es0 ws0. raise msg (self\<lparr>errors := es0, warnings := ws0\<rparr>)
      = (Raise msg, self\<lparr>errors := es0 @ [], warnings := ws0 @ []\<rparr>)"
    by (simp add: raise_def)
  then show "\<exists>r es ws. \<forall>es0 ws0. raise msg (self\<lparr>errors := es0, warnings := ws0\<rparr>)
      = (r, self\<lparr>errors := es0 @ es, warnings := ws0 @ ws\<rparr>)"
    by blast
qed

lemma framed_call [framed_intros]: "framed (call r)"
  by (cases r) (simp_all add: call_def framed_ret framed_raise)

lemma framed_if [framed_intros]:
  "(c \<Longrightarrow> framed a) \<Longrightarrow> (\<not> c \<Longrightarrow> framed b) \<Longrightarrow> framed (if c then a else b)"
  by simp

lemma framed_prod [framed_intros]:
  "(\<And>a b. p = (a, b) \<Longrightarrow> framed (f a b)) \<Longrightarrow> framed (case_prod f p)"
  by (cases p) simp

lemma framed_prod_arg [framed_intros]:
  "(\<And>a b. p = (a, b) \<Longrightarrow> framed (f a b s)) \<Longrightarrow> framed (case_prod f p s)"
  by (cases p) simp

lemma framed_Let [framed_intros]: "framed (f x) \<Longrightarrow> framed (Let x f)"
  by simp

lemma framed_option [framed_intros]:
  "(x = None \<Longrightarrow> framed a) \<Longrightarrow> (\<And>y. x = Some y \<Longrightarrow> framed (f y)) \<Longrightarrow>
     framed (case_option a f x)"
  by (cases x) simp_all

lemma framed_compiled [framed_intros]:
  "(x = Compiled \<Longrightarrow> framed a) \<Longrightarrow> (\<And>msg. x = SyntaxError msg \<Longrightarrow> framed (f msg)) \<Longrightarrow>
     (\<And>msg. x = CompileError msg \<Longrightarrow> framed (g msg)) \<Longrightarrow> framed (case_compiled a f g x)"
  by (cases x) simp_all

lemma framed_yaml [framed_intros]:
  "(\<And>s. v = YStr s \<Longrightarrow> framed (f1 s)) \<Longrightarrow> (\<And>t s. v = YScalar t s \<Longrightarrow> framed (f2 t s)) \<Longrightarrow>
     (\<And>xs. v = YList xs \<Longrightarrow> framed (f3 xs)) \<Longrightarrow> (\<And>ps. v = YDict ps \<Longrightarrow> framed (f4 ps)) \<Longrightarrow>
     framed (case_yaml f1 f2 f3 f4 v)"
  by (cases v) simp_all

lemma framed_errors_append [framed_intros]: "framed (errors_append msg)"
proof (rule framedI)
  fix self
  have "\<forall>es0 ws0. errors_append msg (self\<lparr>errors := es0, warnings := ws0\<rparr>)
      = (Return (), self\<lparr>errors := es0 @ [msg], warnings := ws0 @ []\<rparr>)"
    by (simp add: errors_append_def)
  then show "\<exists>r es ws. \<forall>es0 ws0. errors_append msg (self\<lparr>errors := es0, warnings := ws0\<rparr>)
      = (r, self\<lparr>errors := es0 @ es, warnings := ws0 @ ws\<rparr>)"
    by blast
qed

lemma framed_warnings_append [framed_intros]: "framed (warnings_append msg)"
proof (rule framedI)
  fix self
  have "\<forall>es0 ws0. warnings_append msg (self\<lparr>errors := es0, warnings := ws0\<rparr>)
      = (Return (), self\<lparr>errors := es0 @ [], warnings := ws0 @ [msg]\<rparr>)"
    by (simp add: warnings_append_def)
  then show "\<exists>r es ws. \<forall>es0 ws0. warnings_append msg (self\<lparr>errors := es0, warnings := ws0\<rparr>)
      = (r, self\<lparr>errors := es0 @ es, warnings := ws0 @ ws\<rparr>)"
    by blast
qed

lemma framed_and_then [framed_intros]:
  assumes "framed m" and "\<And>x. framed (f x)"
  shows "framed (and_then m f)"
proof (rule framedI)
  fix self
  from assms(1) obtain r es ws where m: "\<And>es0 ws0.
      m (self\<lparr>errors := es0, warnings := ws0\<rparr>)
        = (r, self\<lparr>errors := es0 @ es, warnings := ws0 @ ws\<rparr>)"
    unfolding framed_def by blast
  show "\<exists>r es ws. \<forall>es0 ws0. and_then m f (self\<lparr>errors := es0, warnings := ws0\<rparr>)
      = (r, self\<lparr>errors := es0 @ es, warnings := ws0 @ ws\<rparr>)"
  proof (cases r)
    case (Raise msg)
    with m have "\<forall>es0 ws0. and_then m f (self\<lparr>errors := es0, warnings := ws0\<rparr>)
        = (Raise msg, self\<lparr>errors := es0 @ es, warnings := ws0 @ ws\<rparr>)"
      by (simp add: and_then_def)
    then show ?thesis by blast
  next
    case (Return x)
    from assms(2) [of x] obtain r2 es2 ws2 where f: "\<And>es0 ws0.
        f x (self\<lparr>errors := es0, warnings := ws0\<rparr>)
          = (r2, self\<lparr>errors := es0 @ es2, warnings := ws0 @ ws2\<rparr>)"
      unfolding framed_def by blast
    have "\<forall>es0 ws0. and_then m f (self\<lparr>errors := es0, warnings := ws0\<rparr>)
        = (r2, self\<lparr>errors := es0 @ (es @ es2), warnings := ws0 @ (ws @ ws2)\<rparr>)"
      using m f Return by (simp add: and_then_def)
    then show ?thesis by blast
  qed
qed

lemma framed_for_each [framed_intros]:
  assumes "\<And>x s. x \<in> set xs \<Longrightarrow> framed (body x s)"
  shows "framed (for_each xs body s)"
  using assms
proof (induction xs arbitrary: s)
  case Nil
  show ?case by (simp add: framed_ret)
next
  case (Cons x xs)
  show ?case
    by (simp, rule framed_and_then) (simp_all add: Cons)
qed

lemma framed_self:
  assumes "\<And>d f. framed (m d f)"
  shows "framed (\<lambda>self. m (docs_dir self) (mkdocs_file self) self)"
proof (rule framedI)
  fix self
  from assms [of "docs_dir self" "mkdocs_file self"] obtain r es ws where "\<And>es0 ws0.
      m (docs_dir self) (mkdocs_file self) (self\<lparr>errors := es0, warnings := ws0\<rparr>)
        = (r, self\<lparr>errors := es0 @ es, warnings := ws0 @ ws\<rparr>)"
    unfolding framed_def by blast
  then have "\<forall>es0 ws0. (\<lambda>self. m (docs_dir self) (mkdocs_file self) self)
        (self\<lparr>errors := es0, warnings := ws0\<rparr>)
      = (r, self\<lparr>errors := es0 @ es, warnings := ws0 @ ws\<rparr>)"
    by simp
  then show "\<exists>r es ws. \<forall>es0 ws0. (\<lambda>self. m (docs_dir self) (mkdocs_file self) self)
        (self\<lparr>errors := es0, warnings := ws0\<rparr>)
      = (r, self\<lparr>errors := es0 @ es, warnings := ws0 @ ws\<rparr>)"
    by blast
qed

lemma framed_nav_loops:
  "framed (nav_items_loop w d items success)"
  "framed (nav_pairs_loop w d pairs success)"
proof (induction w d items success and w d pairs success
    rule: nav_items_loop_nav_pairs_loop.induct)
  case (1 w d success)
  show ?case by (simp add: framed_ret)
next
  case (2 w d item rest success)
  show ?case
    by (simp only: nav_items_loop.simps) (intro framed_intros 2; simp)
next
  case (3 w d success)
  show ?case by (simp add: framed_ret)
next
  case (4 w d title path rest success)
  show ?case
    by (simp only: nav_pairs_loop.simps) (intro framed_intros 4; simp)
qed

lemma framed_check_nav_items: "framed (check_nav_items w d items)"
  by (simp add: check_nav_items_def framed_nav_loops)

lemma framed_check_files_exist: "framed (check_files_exist w)"
  unfolding check_files_exist_def
  by (rule framed_self) (intro framed_intros framed_check_nav_items)

lemma framed_validate_internal_links: "framed (validate_internal_links w)"
  unfolding validate_internal_links_def
  by (rule framed_self) (intro framed_intros)

lemma framed_validate_code_blocks: "framed (validate_code_blocks w)"
  unfolding validate_code_blocks_def
  by (rule framed_self) (intro framed_intros)

lemma framed_validate_api_docs: "framed (validate_api_docs w)"
  unfolding validate_api_docs_def
  by (rule framed_self) (intro framed_intros)

lemma framed_check_image_references: "framed (check_image_references w)"
  unfolding check_image_references_def
  by (rule framed_self) (intro framed_intros)

lemma framed_check_headings: "framed (check_headings md_file headings)"
  unfolding check_headings_def
  by (intro framed_intros)

lemma framed_validate_markdown: "framed (validate_markdown w)"
  unfolding validate_markdown_def
  by (rule framed_self) (intro framed_intros framed_check_headings)

lemma framed_nav_valid:
  "framed (validate_nav_item item)"
  "framed (nav_pairs_valid pairs success)"
  "framed (nav_children_valid children success)"
proof (induction item and pairs success and children success
    rule: validate_nav_item_nav_pairs_valid_nav_children_valid.induct)
  case (6 title content rest success)
  show ?case
    by (simp only: nav_pairs_valid.simps) (intro framed_intros 6; simp)
next
  case (8 child rest success)
  show ?case
    by (simp only: nav_children_valid.simps) (intro framed_intros 8)
qed (simp_all add: framed_ret)

lemmas framed_validate_nav_item = framed_nav_valid(1)

lemma framed_all_valid: "framed (all_valid items)"
proof (induction items)
  case Nil
  show ?case by (simp add: framed_ret)
next
  case (Cons item rest)
  show ?case
    by (simp, intro framed_intros framed_validate_nav_item Cons)
qed

lemma framed_validate_navigation: "framed (validate_navigation w)"
  unfolding validate_navigation_def
  by (rule framed_self) (intro framed_intros framed_all_valid)

subsection \<open>A check returns True exactly when it records no error\<close>

lemma tracksI:
  assumes "\<And>self r self'. m self = (r, self') \<Longrightarrow>
      length (errors self) \<le> length (errors self')
      \<and> (\<forall>ok. r = Return ok \<longrightarrow> (ok \<longleftrightarrow> s \<and> length (errors self') = length (errors self)))"
  shows "tracks m s"
  unfolding tracks_def by (intro allI impI) (rule assms)

lemma tracksD:
  assumes "tracks m s" and "m self = (r, self')"
  shows "length (errors self) \<le> length (errors self')"
    and "\<forall>ok. r = Return ok \<longrightarrow> (ok \<longleftrightarrow> s \<and> length (errors self') = length (errors self))"
proof -
  note t = assms(1) [unfolded tracks_def, rule_format, OF assms(2)]
  from t show "length (errors self) \<le> length (errors self')"
    by simp
  from t show "\<forall>ok. r = Return ok \<longrightarrow> (ok \<longleftrightarrow> s \<and> length (errors self') = length (errors self))"
    by simp
qed

lemma quietD: "quiet m \<Longrightarrow> m self = (r, self') \<Longrightarrow> errors self' = errors self"
  unfolding quiet_def by (erule allE [of _ self], erule allE [of _ r], erule allE [of _ self']) simp

lemma tracks_ret: "tracks (ret s) s"
  by (rule tracksI) (auto simp: ret_def)

lemma tracks_raise: "tracks (raise msg) s"
  by (rule tracksI) (auto simp: raise_def)

lemma tracks_fail: "tracks (and_then (errors_append msg) (\<lambda>u. ret False)) s"
  by (rule tracksI) (auto simp: and_then_def errors_append_def ret_def)

lemma tracks_seq:
  assumes "tracks m s" and "\<And>s'. tracks (f s') s'"
  shows "tracks (and_then m f) s"
proof (rule tracksI)
  fix self r self'
  assume run: "and_then m f self = (r, self')"
  obtain r1 self1 where m: "m self = (r1, self1)"
    by (cases "m self")
  have le1: "length (errors self) \<le> length (errors self1)"
    using assms(1) m by (rule tracksD(1))
  have ok1: "\<forall>ok. r1 = Return ok \<longrightarrow> (ok \<longleftrightarrow> s \<and> length (errors self1) = length (errors self))"
    using assms(1) m by (rule tracksD(2))
  show "length (errors self) \<le> length (errors self')
      \<and> (\<forall>ok. r = Return ok \<longrightarrow> (ok \<longleftrightarrow> s \<and> length (errors self') = length (errors self)))"
  proof (cases r1)
    case (Raise msg)
    with run m have "r = Raise msg" "self' = self1"
      by (simp_all add: and_then_def)
    with le1 show ?thesis
      by simp
  next
    case (Return s1)
    with run m have f: "f s1 self1 = (r, self')"
      by (simp add: and_then_def)
    have le2: "length (errors self1) \<le> length (errors self')"
      using assms(2) f by (rule tracksD(1))
    have ok2: "\<forall>ok. r = Return ok \<longrightarrow> (ok \<longleftrightarrow> s1 \<and> length (errors self') = length (errors self1))"
      using assms(2) f by (rule tracksD(2))
    from ok1 Return have s1: "s1 \<longleftrightarrow> s \<and> length (errors self1) = length (errors self)"
      by simp
    show ?thesis
    proof (intro conjI allI impI)
      show "length (errors self) \<le> length (errors self')"
        using le1 le2 by simp
    next
      fix ok
      assume "r = Return ok"
      with ok2 have "ok \<longleftrightarrow> s1 \<and> length (errors self') = length (errors self1)"
        by simp
      with s1 le1 le2 show "ok \<longleftrightarrow> s \<and> length (errors self') = length (errors self)"
        by (cases s1) auto
    qed
  qed
qed

lemma tracks_after_quiet:
  assumes "quiet m" and "\<And>x. tracks (f x) s"
  shows "tracks (and_then m f) s"
proof (rule tracksI)
  fix self r self'
  assume run: "and_then m f self = (r, self')"
  obtain r1 self1 where m: "m self = (r1, self1)"
    by (cases "m self")
  from assms(1) m have same: "errors self1 = errors self"
    by (rule quietD)
  show "length (errors self) \<le> length (errors self')
      \<and> (\<forall>ok. r = Return ok \<longrightarrow> (ok \<longleftrightarrow> s \<and> length (errors self') = length (errors self)))"
  proof (cases r1)
    case (Raise msg)
    with run m have "r = Raise msg" "self' = self1"
      by (simp_all add: and_then_def)
    with same show ?thesis
      by simp
  next
    case (Return x)
    with run m have f: "f x self1 = (r, self')"
      by (simp add: and_then_def)
    have "length (errors self1) \<le> length (errors self')"
      using assms(2) f by (rule tracksD(1))
    moreover have "\<forall>ok. r = Return ok \<longrightarrow> (ok \<longleftrightarrow> s \<and> length (errors self') = length (errors self1))"
      using assms(2) f by (rule tracksD(2))
    ultimately show ?thesis
      by (simp add: same)
  qed
qed

lemma tracks_conj:
  assumes "tracks m True"
  shows "tracks (and_then m (\<lambda>ok. ret (s \<and> ok))) s"
proof (rule tracksI)
  fix self r self'
  assume run: "and_then m (\<lambda>ok. ret (s \<and> ok)) self = (r, self')"
  obtain r1 self1 where m: "m self = (r1, self1)"
    by (cases "m self")
  have le1: "length (errors self) \<le> length (errors self1)"
    using assms m by (rule tracksD(1))
  have ok1: "\<forall>ok. r1 = Return ok \<longrightarrow> (ok \<longleftrightarrow> True \<and> length (errors self1) = length (errors self))"
    using assms m by (rule tracksD(2))
  show "length (errors self) \<le> length (errors self')
      \<and> (\<forall>ok. r = Return ok \<longrightarrow> (ok \<longleftrightarrow> s \<and> length (errors self') = length (errors self)))"
  proof (cases r1)
    case (Raise msg)
    with run m have "r = Raise msg" "self' = self1"
      by (simp_all add: and_then_def)
    with le1 show ?thesis
      by simp
  next
    case (Return ok1)
    with run m have "r = Return (s \<and> ok1)" "self' = self1"
      by (simp_all add: and_then_def ret_def)
    moreover from ok1 Return have "ok1 \<longleftrightarrow> length (errors self1) = length (errors self)"
      by simp
    ultimately show ?thesis
      using le1 by simp
  qed
qed

lemma tracks_for_each:
  assumes "\<And>x s. x \<in> set xs \<Longrightarrow> tracks (body x s) s"
  shows "tracks (for_each xs body s) s"
  using assms
proof (induction xs arbitrary: s)
  case Nil
  show ?case by (simp add: tracks_ret)
next
  case (Cons x xs)
  show ?case
    by (simp, rule tracks_seq) (simp_all add: Cons)
qed

lemma tracks_if:
  "(c \<Longrightarrow> tracks a s) \<Longrightarrow> (\<not> c \<Longrightarrow> tracks b s) \<Longrightarrow> tracks (if c then a else b) s"
  by simp

lemma tracks_prod_arg:
  "(\<And>a b. p = (a, b) \<Longrightarrow> tracks (f a b s') s) \<Longrightarrow> tracks (case_prod f p s') s"
  by (cases p) simp

lemma tracks_Let: "tracks (f x) s \<Longrightarrow> tracks (Let x f) s"
  by simp

lemma tracks_option:
  "(x = None \<Longrightarrow> tracks a s) \<Longrightarrow> (\<And>y. x = Some y \<Longrightarrow> tracks (f y) s) \<Longrightarrow>
     tracks (case_option a f x) s"
  by (cases x) simp_all

lemma tracks_compiled:
  "(x = Compiled \<Longrightarrow> tracks a s) \<Longrightarrow> (\<And>msg. x = SyntaxError msg \<Longrightarrow> tracks (f msg) s) \<Longrightarrow>
     (\<And>msg. x = CompileError msg \<Longrightarrow> tracks (g msg) s) \<Longrightarrow> tracks (case_compiled a f g x) s"
  by (cases x) simp_all

lemma tracks_yaml:
  "(\<And>t. v = YStr t \<Longrightarrow> tracks (f1 t) s) \<Longrightarrow> (\<And>t u. v = YScalar t u \<Longrightarrow> tracks (f2 t u) s) \<Longrightarrow>
     (\<And>xs. v = YList xs \<Longrightarrow> tracks (f3 xs) s) \<Longrightarrow> (\<And>ps. v = YDict ps \<Longrightarrow> tracks (f4 ps) s) \<Longrightarrow>
     tracks (case_yaml f1 f2 f3 f4 v) s"
  by (cases v) simp_all

lemma tracks_self:
  assumes "\<And>d f. tracks (m d f) s"
  shows "tracks (\<lambda>self. m (docs_dir self) (mkdocs_file self) self) s"
proof (rule tracksI)
  fix self r self'
  assume run: "m (docs_dir self) (mkdocs_file self) self = (r, self')"
  have "length (errors self) \<le> length (errors self')"
    using assms run by (rule tracksD(1))
  moreover have "\<forall>ok. r = Return ok \<longrightarrow> (ok \<longleftrightarrow> s \<and> length (errors self') = length (errors self))"
    using assms run by (rule tracksD(2))
  ultimately show "length (errors self) \<le> length (errors self')
      \<and> (\<forall>ok. r = Return ok \<longrightarrow> (ok \<longleftrightarrow> s \<and> length (errors self') = length (errors self)))"
    by simp
qed

lemma quiet_call: "quiet (call r)"
  by (cases r) (auto simp: quiet_def call_def ret_def raise_def)

lemma quiet_ret: "quiet (ret x)"
  by (simp add: quiet_def ret_def)

lemma quiet_warnings_append: "quiet (warnings_append msg)"
  by (auto simp: quiet_def warnings_append_def)

lemma quiet_and_then:
  assumes "quiet m" and "\<And>x. quiet (f x)"
  shows "quiet (and_then m f)"
  unfolding quiet_def
proof (intro allI impI)
  fix self r self'
  assume run: "and_then m f self = (r, self')"
  obtain r1 self1 where m: "m self = (r1, self1)"
    by (cases "m self")
  from assms(1) m have same: "errors self1 = errors self"
    by (rule quietD)
  show "errors self' = errors self"
  proof (cases r1)
    case (Raise msg)
    with run m have "self' = self1" by (simp add: and_then_def)
    with same show ?thesis by simp
  next
    case (Return x)
    with run m have "f x self1 = (r, self')" by (simp add: and_then_def)
    from quietD [OF assms(2) this] same show ?thesis by simp
  qed
qed

lemma quiet_for_each:
  assumes "\<And>x s. quiet (body x s)"
  shows "quiet (for_each xs body s)"
proof (induction xs arbitrary: s)
  case Nil
  show ?case by (simp add: quiet_ret)
next
  case (Cons x xs)
  have "quiet (and_then (body x s) (for_each xs body))"
    by (rule quiet_and_then) (rule assms, rule Cons)
  then show ?case by simp
qed

lemma quiet_heading_step:
  "quiet (and_then (if c then warnings_append msg else ret ()) (\<lambda>u. ret level))"
  by (rule quiet_and_then) (simp_all add: quiet_warnings_append quiet_ret)

lemma quiet_check_headings: "quiet (check_headings md_file headings)"
  unfolding check_headings_def
proof (rule quiet_for_each)
  fix x :: "string \<times> string" and s :: nat
  obtain hashes title where x: "x = (hashes, title)"
    by (cases x)
  show "quiet ((case x of (hashes, title) \<Rightarrow> \<lambda>current_level.
      let level = length hashes in
      and_then
        (if int level - int current_level > 1
         then warnings_append (''Skipped heading level in '' @ md_file @ '': '' @ title)
         else ret ())
        (\<lambda>_. ret level)) s)"
    unfolding x prod.case Let_def by (rule quiet_heading_step)
qed

lemmas tracks_split = tracks_if tracks_prod_arg tracks_Let tracks_option tracks_compiled tracks_yaml

lemma tracks_nav_loops:
  "tracks (nav_items_loop w d items success) success"
  "tracks (nav_pairs_loop w d pairs success) success"
proof (induction w d items success and w d pairs success
    rule: nav_items_loop_nav_pairs_loop.induct)
  case (1 w d success)
  show ?case by (simp add: tracks_ret)
next
  case (2 w d item rest success)
  show ?case
    apply (simp only: nav_items_loop.simps)
    apply (rule tracks_seq)
     apply (rule tracks_yaml)
        apply (rule tracks_ret)
       apply (rule tracks_ret)
      apply (rule tracks_ret)
     apply (erule 2)
    apply (rule 2)
    done
next
  case (3 w d success)
  show ?case by (simp add: tracks_ret)
next
  case (4 w d title path rest success)
  show ?case
    apply (simp only: nav_pairs_loop.simps)
    apply (rule tracks_seq)
     apply (rule tracks_yaml)
        apply (rule tracks_after_quiet)
         apply (rule quiet_call)
        apply (rule tracks_if)
         apply (rule tracks_fail)
        apply (rule tracks_ret)
       apply (rule tracks_raise)
      apply (rule tracks_conj)
      apply (erule 4)
     apply (rule tracks_raise)
    apply (rule 4)
    done
qed

lemma tracks_check_files_exist: "tracks (check_files_exist w) True"
  unfolding check_files_exist_def check_nav_items_def
  by (rule tracks_self) (intro tracks_after_quiet quiet_call tracks_nav_loops)

lemma tracks_validate_internal_links: "tracks (validate_internal_links w) True"
  unfolding validate_internal_links_def
  by (rule tracks_self)
    (intro tracks_for_each tracks_after_quiet quiet_call tracks_split tracks_fail tracks_ret)

lemma tracks_validate_code_blocks: "tracks (validate_code_blocks w) True"
  unfolding validate_code_blocks_def
  by (rule tracks_self)
    (intro tracks_for_each tracks_after_quiet quiet_call tracks_split tracks_fail tracks_ret
      tracks_raise)

lemma tracks_validate_api_docs: "tracks (validate_api_docs w) True"
  unfolding validate_api_docs_def
  by (rule tracks_self)
    (intro tracks_split tracks_fail tracks_after_quiet quiet_call tracks_for_each tracks_ret)

lemma tracks_check_image_references: "tracks (check_image_references w) True"
  unfolding check_image_references_def
  by (rule tracks_self)
    (intro tracks_for_each tracks_after_quiet quiet_call tracks_split tracks_fail tracks_ret)

lemma tracks_validate_markdown: "tracks (validate_markdown w) True"
  unfolding validate_markdown_def
  by (rule tracks_self)
    (intro tracks_for_each tracks_after_quiet quiet_call quiet_check_headings tracks_split
      tracks_fail tracks_ret)

lemma tracks_bind:
  assumes "tracks m True" and "\<And>ok. tracks (f ok) (s \<and> ok)"
  shows "tracks (and_then m f) s"
proof (rule tracksI)
  fix self r self'
  assume run: "and_then m f self = (r, self')"
  obtain r1 self1 where m: "m self = (r1, self1)"
    by (cases "m self")
  have le1: "length (errors self) \<le> length (errors self1)"
    using assms(1) m by (rule tracksD(1))
  have ok1: "\<forall>ok. r1 = Return ok \<longrightarrow> (ok \<longleftrightarrow> True \<and> length (errors self1) = length (errors self))"
    using assms(1) m by (rule tracksD(2))
  show "length (errors self) \<le> length (errors self')
      \<and> (\<forall>ok. r = Return ok \<longrightarrow> (ok \<longleftrightarrow> s \<and> length (errors self') = length (errors self)))"
  proof (cases r1)
    case (Raise msg)
    with run m have "r = Raise msg" "self' = self1"
      by (simp_all add: and_then_def)
    with le1 show ?thesis
      by simp
  next
    case (Return b)
    from ok1 Return have b: "b \<longleftrightarrow> length (errors self1) = length (errors self)"
      by simp
    from run m Return have f: "f b self1 = (r, self')"
      by (simp add: and_then_def)
    have le2: "length (errors self1) \<le> length (errors self')"
      using assms(2) f by (rule tracksD(1))
    have ok2: "\<forall>ok. r = Return ok \<longrightarrow> (ok \<longleftrightarrow> (s \<and> b) \<and> length (errors self') = length (errors self1))"
      using assms(2) f by (rule tracksD(2))
    show ?thesis
    proof (intro conjI allI impI)
      show "length (errors self) \<le> length (errors self')"
        using le1 le2 by simp
    next
      fix ok
      assume "r = Return ok"
      with ok2 have "ok \<longleftrightarrow> (s \<and> b) \<and> length (errors self') = length (errors self1)"
        by simp
      with b le1 le2 show "ok \<longleftrightarrow> s \<and> length (errors self') = length (errors self)"
        by (cases b) auto
    qed
  qed
qed

lemma tracks_all_step:
  assumes "tracks m True" and "tracks n True"
  shows "tracks (and_then m (\<lambda>ok. if ok then n else ret False)) True"
proof (rule tracksI)
  fix self r self'
  assume run: "and_then m (\<lambda>ok. if ok then n else ret False) self = (r, self')"
  obtain r1 self1 where m: "m self = (r1, self1)"
    by (cases "m self")
  have le1: "length (errors self) \<le> length (errors self1)"
    using assms(1) m by (rule tracksD(1))
  have ok1: "\<forall>ok. r1 = Return ok \<longrightarrow> (ok \<longleftrightarrow> True \<and> length (errors self1) = length (errors self))"
    using assms(1) m by (rule tracksD(2))
  show "length (errors self) \<le> length (errors self')
      \<and> (\<forall>ok. r = Return ok \<longrightarrow> (ok \<longleftrightarrow> True \<and> length (errors self') = length (errors self)))"
  proof (cases r1)
    case (Raise msg)
    with run m have "r = Raise msg" "self' = self1"
      by (simp_all add: and_then_def)
    with le1 show ?thesis
      by simp
  next
    case (Return b)
    from ok1 Return have b: "b \<longleftrightarrow> length (errors self1) = length (errors self)"
      by simp
    show ?thesis
    proof (cases b)
      case True
      with run m Return have n: "n self1 = (r, self')"
        by (simp add: and_then_def)
      have "length (errors self1) \<le> length (errors self')"
        using assms(2) n by (rule tracksD(1))
      moreover have "\<forall>ok. r = Return ok \<longrightarrow> (ok \<longleftrightarrow> True \<and> length (errors self') = length (errors self1))"
        using assms(2) n by (rule tracksD(2))
      ultimately show ?thesis
        using b True by simp
    next
      case False
      with run m Return have "r = Return False" "self' = self1"
        by (simp_all add: and_then_def ret_def)
      with b False le1 show ?thesis
        by simp
    qed
  qed
qed

lemma tracks_nav_valid:
  "tracks (validate_nav_item item) True"
  "tracks (nav_pairs_valid pairs success) success"
  "tracks (nav_children_valid children success) success"
proof (induction item and pairs success and children success
    rule: validate_nav_item_nav_pairs_valid_nav_children_valid.induct)
  case (6 title content rest success)
  show ?case
    apply (simp only: nav_pairs_valid.simps)
    apply (rule tracks_seq)
     apply (rule tracks_if)
      apply (rule tracks_fail)
     apply (rule tracks_ret)
    apply (rule tracks_seq)
     apply (rule tracks_yaml)
        apply (rule tracks_ret)
       apply (rule tracks_ret)
      apply (erule 6)
     apply (rule tracks_ret)
    apply (rule 6)
    done
next
  case (8 child rest success)
  show ?case
    apply (simp only: nav_children_valid.simps)
    apply (rule tracks_bind)
     apply (rule 8)
    apply (rule 8)
    done
qed (simp_all add: tracks_ret)

lemma tracks_all_valid: "tracks (all_valid items) True"
proof (induction items)
  case Nil
  show ?case by (simp add: tracks_ret)
next
  case (Cons item rest)
  have "tracks (and_then (validate_nav_item item) (\<lambda>ok. if ok then all_valid rest else ret False)) True"
    by (rule tracks_all_step) (rule tracks_nav_valid(1), rule Cons)
  then show ?case by simp
qed

lemma tracks_validate_navigation: "tracks (validate_navigation w) True"
  unfolding validate_navigation_def
  by (rule tracks_self) (intro tracks_after_quiet quiet_call tracks_all_valid)

subsection \<open>The run of all checks\<close>

lemma clear_emit [simp]: "clear (emit es ws self) = clear self"
  by (simp add: clear_def emit_def)

lemma clear_errors_update [simp]: "clear (self\<lparr>errors := es\<rparr>) = clear self"
  by (simp add: clear_def)

lemma outcome_of_emit [simp]: "outcome_of m (emit es ws self) = outcome_of m self"
  by (simp add: outcome_of_def)

lemma errors_of_emit [simp]: "errors_of m (emit es ws self) = errors_of m self"
  by (simp add: errors_of_def)

lemma warnings_of_emit [simp]: "warnings_of m (emit es ws self) = warnings_of m self"
  by (simp add: warnings_of_def)

lemma emit_emit [simp]: "emit es2 ws2 (emit es1 ws1 self) = emit (es1 @ es2) (ws1 @ ws2) self"
  by (simp add: emit_def)

lemma emit_error [simp]: "(emit es ws self)\<lparr>errors := errors (emit es ws self) @ [e]\<rparr> = emit (es @ [e]) ws self"
  by (simp add: emit_def)

lemma emit_nothing [simp]: "emit [] [] self = self"
  by (simp add: emit_def)

lemma framed_run:
  assumes "framed m"
  shows "m self = (outcome_of m self, emit (errors_of m self) (warnings_of m self) self)"
proof -
  from assms obtain r es ws where m: "\<And>es0 ws0.
      m (self\<lparr>errors := es0, warnings := ws0\<rparr>)
        = (r, self\<lparr>errors := es0 @ es, warnings := ws0 @ ws\<rparr>)"
    unfolding framed_def by blast
  from m [where ?es0.0 = "errors self" and ?ws0.0 = "warnings self"] have 1: "m self = (r, emit es ws self)"
    by (simp add: emit_def)
  from m [where ?es0.0 = "[]" and ?ws0.0 = "[]"] have 2: "m (clear self) = (r, self\<lparr>errors := es, warnings := ws\<rparr>)"
    by (simp add: clear_def)
  show ?thesis
    by (simp add: 1 outcome_of_def errors_of_def warnings_of_def 2)
qed

lemma run_checks_effect:
  assumes "\<forall>c \<in> set cs. framed (snd c)"
  shows "run_checks cs success self =
     (Return (success \<and> (\<forall>c \<in> set cs. outcome_of (snd c) self = Return True)),
      emit (concat (map (\<lambda>c. errors_of (snd c) self @ caught (fst c) (outcome_of (snd c) self)) cs))
           (concat (map (\<lambda>c. warnings_of (snd c) self) cs)) self)"
  using assms
proof (induction cs arbitrary: success self)
  case Nil
  show ?case by (simp add: ret_def)
next
  case (Cons c cs)
  obtain name check where c: "c = (name, check)"
    by (cases c)
  from Cons.prems c have fr: "framed check" and rest: "\<forall>c \<in> set cs. framed (snd c)"
    by simp_all
  note run = framed_run [OF fr, of self]
  note IH = Cons.IH [OF rest]
  show ?case
  proof (cases "outcome_of check self")
    case (Return ok)
    show ?thesis
      using run Return by (cases ok) (auto simp: c IH caught_def)
  next
    case (Raise msg)
    show ?thesis
      using run Raise by (auto simp: c IH caught_def)
  qed
qed

lemma framed_checks: "\<forall>c \<in> set (checks w). framed (snd c)"
  by (simp add: checks_def framed_check_files_exist framed_validate_internal_links
      framed_validate_code_blocks framed_validate_api_docs framed_validate_navigation
      framed_check_image_references framed_validate_markdown)

lemma validate_all_effect:
  "validate_all w self =
     (Return (\<forall>c \<in> set (checks w). outcome_of (snd c) self = Return True),
      emit (concat (map (\<lambda>c. errors_of (snd c) self @ caught (fst c) (outcome_of (snd c) self))
              (checks w)))
           (concat (map (\<lambda>c. warnings_of (snd c) self) (checks w))) self)"
  unfolding validate_all_def using run_checks_effect [OF framed_checks, of w True self] by simp

lemmas method_defs = ret_def raise_def and_then_def call_def errors_append_def warnings_append_def

lemmas check_defs = check_files_exist_def check_nav_items_def validate_internal_links_def
  validate_code_blocks_def validate_api_docs_def validate_navigation_def
  check_image_references_def validate_markdown_def check_headings_def validate_all_def checks_def
  DocsValidator_init_def required_sections_def is_url_def lower_def char_lower_def
  findall_headings_def heading_at_def is_space_def

lemmas site_defs = site_def site_manifest_def all_present_def setup_missing_def

lemma run_checks_tracks:
  assumes "\<forall>c \<in> set cs. tracks (snd c) True"
  shows "tracks (run_checks cs s) s"
  using assms
proof (induction cs arbitrary: s)
  case Nil
  show ?case by (simp add: tracks_ret)
next
  case (Cons c cs)
  obtain name check where c: "c = (name, check)"
    by (cases c)
  from Cons.prems c have tr: "tracks check True" and rest: "\<forall>c \<in> set cs. tracks (snd c) True"
    by simp_all
  note IH = Cons.IH [OF rest]
  show ?case
  proof (rule tracksI)
    fix self r self'
    assume run: "run_checks (c # cs) s self = (r, self')"
    obtain r1 self1 where m: "check self = (r1, self1)"
      by (cases "check self")
    have le1: "length (errors self) \<le> length (errors self1)"
      using tr m by (rule tracksD(1))
    have ok1: "\<forall>ok. r1 = Return ok \<longrightarrow> (ok \<longleftrightarrow> True \<and> length (errors self1) = length (errors self))"
      using tr m by (rule tracksD(2))
    show "length (errors self) \<le> length (errors self')
        \<and> (\<forall>ok. r = Return ok \<longrightarrow> (ok \<longleftrightarrow> s \<and> length (errors self') = length (errors self)))"
    proof (cases r1)
      case (Return b)
      from ok1 Return have b: "b \<longleftrightarrow> length (errors self1) = length (errors self)"
        by simp
      from run m Return c have f: "run_checks cs (if \<not> b then False else s) self1 = (r, self')"
        by simp
      have le2: "length (errors self1) \<le> length (errors self')"
        using IH f by (rule tracksD(1))
      have ok2: "\<forall>ok. r = Return ok \<longrightarrow>
          (ok \<longleftrightarrow> (if \<not> b then False else s) \<and> length (errors self') = length (errors self1))"
        using IH f by (rule tracksD(2))
      show ?thesis
      proof (intro conjI allI impI)
        show "length (errors self) \<le> length (errors self')"
          using le1 le2 by simp
      next
        fix ok
        assume "r = Return ok"
        with ok2 have "ok \<longleftrightarrow> (if \<not> b then False else s) \<and> length (errors self') = length (errors self1)"
          by simp
        with b le1 le2 show "ok \<longleftrightarrow> s \<and> length (errors self') = length (errors self)"
          by (cases b) auto
      qed
    next
      case (Raise msg)
      define self2 where "self2 = self1\<lparr>errors := errors self1 @ [''Error in '' @ name @ '': '' @ msg]\<rparr>"
      from run m Raise c have f: "run_checks cs False self2 = (r, self')"
        by (simp add: self2_def)
      have len2: "length (errors self2) = Suc (length (errors self1))"
        by (simp add: self2_def)
      have le2: "length (errors self2) \<le> length (errors self')"
        using IH f by (rule tracksD(1))
      have ok2: "\<forall>ok. r = Return ok \<longrightarrow> (ok \<longleftrightarrow> False \<and> length (errors self') = length (errors self2))"
        using IH f by (rule tracksD(2))
      from le1 le2 len2 have "length (errors self) < length (errors self')"
        by simp
      with ok2 show ?thesis
        by auto
    qed
  qed
qed

lemma tracks_checks: "\<forall>c \<in> set (checks w). tracks (snd c) True"
  by (simp add: checks_def tracks_check_files_exist tracks_validate_internal_links
      tracks_validate_code_blocks tracks_validate_api_docs tracks_validate_navigation
      tracks_check_image_references tracks_validate_markdown)

lemma validate_all_returns: "\<exists>ok. fst (validate_all w self) = Return ok"
  by (simp add: validate_all_effect)

lemma clear_init: "clear self = DocsValidator_init (docs_dir self) (mkdocs_file self)"
  by (cases self) (simp add: clear_def DocsValidator_init_def)




text \<open>
  C3. For every file system and every validator, \<^verbatim>\<open>validate_all\<close> returns and raises
  nothing. Each of the seven checks is run, in the order of the list. What a check appends,
  and whether it returns or raises, does not depend on what the report holds when it starts
  (the second part), so that \<open>outcome_of\<close>, \<open>errors_of\<close> and \<open>warnings_of\<close> say what the check
  does during the run. The errors the run appends are, check after check, the errors of the
  check itself and then, when the check raised, the one line naming the check and the
  message of the exception; the warnings are those of the checks. The value returned is True
  exactly when every check returned True, hence False when a check returned False or raised.
\<close>

theorem validate_all_runs_every_check:
  "validate_all w self =
     (Return (\<forall>c \<in> set (checks w). outcome_of (snd c) self = Return True),
      emit (concat (map (\<lambda>c. errors_of (snd c) self @ caught (fst c) (outcome_of (snd c) self))
              (checks w)))
           (concat (map (\<lambda>c. warnings_of (snd c) self) (checks w))) self)
   \<and> (\<forall>c \<in> set (checks w). snd c self =
         (outcome_of (snd c) self, emit (errors_of (snd c) self) (warnings_of (snd c) self) self))
   \<and> map fst (checks w) =
       [''check_files_exist'', ''validate_internal_links'', ''validate_code_blocks'',
        ''validate_api_docs'', ''validate_navigation'', ''check_image_references'',
        ''validate_markdown'']"
proof (intro conjI)
  show "validate_all w self =
     (Return (\<forall>c \<in> set (checks w). outcome_of (snd c) self = Return True),
      emit (concat (map (\<lambda>c. errors_of (snd c) self @ caught (fst c) (outcome_of (snd c) self))
              (checks w)))
           (concat (map (\<lambda>c. warnings_of (snd c) self) (checks w))) self)"
    by (rule validate_all_effect)
  show "\<forall>c \<in> set (checks w). snd c self =
         (outcome_of (snd c) self, emit (errors_of (snd c) self) (warnings_of (snd c) self) self)"
    using framed_checks [of w] framed_run by blast
  show "map fst (checks w) =
       [''check_files_exist'', ''validate_internal_links'', ''validate_code_blocks'',
        ''validate_api_docs'', ''validate_navigation'', ''check_image_references'',
        ''validate_markdown'']"
    by (simp add: checks_def)
qed

theorem validate_all_runs_every_check_witness:
  "validate_all (site all_present) (DocsValidator_init ''docs'' ''missing.yml'') =
     (Return False,
      \<lparr>docs_dir = ''docs'', mkdocs_file = ''missing.yml'',
       errors = [''Error in check_files_exist: No such file or directory'',
                 ''Error in validate_navigation: No such file or directory''],
       warnings = [''Skipped heading level in docs/index.md: Welcome'']\<rparr>)"
proof -
  have e: "validate_all (site all_present) (DocsValidator_init ''docs'' ''missing.yml'') =
     (Return False,
      \<lparr>docs_dir = ''docs'', mkdocs_file = ''missing.yml'',
       errors = [''Error in check_files_exist: No such file or directory'',
                 ''Error in validate_navigation: No such file or directory''],
       warnings = [''Skipped heading level in docs/index.md: Welcome'']\<rparr>)"
    by (simp add: method_defs check_defs site_defs)
  show ?thesis
    using validate_all_runs_every_check
      [of "site all_present" "DocsValidator_init ''docs'' ''missing.yml''"]
    by (simp only: e)
qed

text \<open>
  C1, as the code has it. The two lists are made empty by \<^verbatim>\<open>__init__\<close> and nowhere else;
  \<^verbatim>\<open>validate_all\<close> assigns neither and only appends. After a run on any validator the errors
  are those it held before, followed by the errors a run on a new validator of the same
  directory and manifest records; the same holds of the warnings; and the value returned is
  that of the run on the new validator.
\<close>

theorem validate_all_appends_to_report:
  "errors (snd (validate_all w self)) =
     errors self @ errors (snd (validate_all w (DocsValidator_init (docs_dir self) (mkdocs_file self))))
   \<and> warnings (snd (validate_all w self)) =
     warnings self @ warnings (snd (validate_all w (DocsValidator_init (docs_dir self) (mkdocs_file self))))
   \<and> fst (validate_all w self) =
     fst (validate_all w (DocsValidator_init (docs_dir self) (mkdocs_file self)))
   \<and> errors (DocsValidator_init d f) = [] \<and> warnings (DocsValidator_init d f) = []"
proof -
  have fresh: "DocsValidator_init (docs_dir self) (mkdocs_file self) = clear self"
    by (simp add: clear_init)
  have o: "outcome_of m (clear self) = outcome_of m self" for m :: "bool action"
    by (simp add: outcome_of_def clear_def)
  have e: "errors_of m (clear self) = errors_of m self" for m :: "bool action"
    by (simp add: errors_of_def clear_def)
  have w: "warnings_of m (clear self) = warnings_of m self" for m :: "bool action"
    by (simp add: warnings_of_def clear_def)
  show ?thesis
    unfolding fresh
    by (simp add: validate_all_effect o e w) (simp add: emit_def clear_def DocsValidator_init_def)
qed

text \<open>
  The claim as stated has the report hold, after a run, the entries of that run only. On
  the site where \<^verbatim>\<open>guide/setup.md\<close> is missing, the first run of a new validator records the
  missing file, and after a second run on the same validator the report holds it twice.
\<close>

theorem validate_all_second_run_counterexample:
  "errors (snd (validate_all (site setup_missing) (DocsValidator_init ''docs'' ''mkdocs.yml'')))
     = [''Missing file: docs/guide/setup.md'']
   \<and> errors (snd (validate_all (site setup_missing)
        (snd (validate_all (site setup_missing) (DocsValidator_init ''docs'' ''mkdocs.yml'')))))
     = [''Missing file: docs/guide/setup.md'', ''Missing file: docs/guide/setup.md'']"
  by (simp add: method_defs check_defs site_defs)

theorem validate_all_appends_to_report_witness:
  "errors (snd (validate_all (site setup_missing)
      \<lparr>docs_dir = ''docs'', mkdocs_file = ''mkdocs.yml'', errors = [''old error''],
       warnings = [''old warning'']\<rparr>))
     = [''old error'', ''Missing file: docs/guide/setup.md'']
   \<and> warnings (snd (validate_all (site setup_missing)
      \<lparr>docs_dir = ''docs'', mkdocs_file = ''mkdocs.yml'', errors = [''old error''],
       warnings = [''old warning'']\<rparr>))
     = [''old warning'', ''Skipped heading level in docs/index.md: Welcome'']"
proof -
  have e: "validate_all (site setup_missing) (DocsValidator_init ''docs'' ''mkdocs.yml'') =
     (Return False, \<lparr>docs_dir = ''docs'', mkdocs_file = ''mkdocs.yml'',
        errors = [''Missing file: docs/guide/setup.md''],
        warnings = [''Skipped heading level in docs/index.md: Welcome'']\<rparr>)"
    by (simp add: method_defs check_defs site_defs)
  show ?thesis
    using validate_all_appends_to_report [of "site setup_missing"
      "\<lparr>docs_dir = ''docs'', mkdocs_file = ''mkdocs.yml'', errors = [''old error''],
        warnings = [''old warning'']\<rparr>"]
    by (simp add: e)
qed

subsection \<open>Files of the manifest\<close>

lemma missing_append: "missing w d (ps @ qs) = missing w d ps @ missing w d qs"
  by (simp add: missing_def)

lemma reported_append: "reported w d (ps @ qs) self = reported w d qs (reported w d ps self)"
  by (simp add: reported_def missing_append)

lemma reported_Nil: "reported w d [] self = self"
  by (simp add: reported_def missing_def)

lemma and_then_Return:
  "m self = (Return x, self') \<Longrightarrow> and_then m f self = f x self'"
  by (simp add: and_then_def)

lemma nav_loops_walk:
  "nav_leaves items = map YStr ps \<Longrightarrow>
   \<forall>p \<in> set ps. \<exists>found. path_exists w (path_join w d p) = Inr found \<Longrightarrow>
     nav_items_loop w d items success self =
       (Return (success \<and> missing w d ps = []), reported w d ps self)"
  "pair_leaves pairs = map YStr ps \<Longrightarrow>
   \<forall>p \<in> set ps. \<exists>found. path_exists w (path_join w d p) = Inr found \<Longrightarrow>
     nav_pairs_loop w d pairs success self =
       (Return (success \<and> missing w d ps = []), reported w d ps self)"
proof (induction w d items success and w d pairs success arbitrary: ps self and ps self
    rule: nav_items_loop_nav_pairs_loop.induct)
  case (1 w d success)
  then show ?case by (simp add: ret_def reported_Nil missing_def)
next
  case (2 w d item rest success)
  from 2(3) obtain ps1 ps2 where ps: "ps = ps1 @ ps2"
    and l1: "(case item of YDict pairs \<Rightarrow> pair_leaves pairs | _ \<Rightarrow> []) = map YStr ps1"
    and l2: "nav_leaves rest = map YStr ps2"
    by (auto simp add: append_eq_map_conv)
  from 2(4) ps
  have a1: "\<forall>p \<in> set ps1. \<exists>found. path_exists w (path_join w d p) = Inr found"
    and a2: "\<forall>p \<in> set ps2. \<exists>found. path_exists w (path_join w d p) = Inr found"
    by simp_all
  have first: "(case item of YDict pairs \<Rightarrow> nav_pairs_loop w d pairs success
                | _ \<Rightarrow> ret success) self
      = (Return (success \<and> missing w d ps1 = []), reported w d ps1 self)"
  proof (cases item)
    case (YDict pairs)
    with l1 have "pair_leaves pairs = map YStr ps1" by simp
    from 2(1) [OF YDict this a1] YDict show ?thesis by simp
  qed (use l1 in \<open>auto simp add: ret_def reported_Nil missing_def\<close>)
  have "nav_items_loop w d (item # rest) success self
      = nav_items_loop w d rest (success \<and> missing w d ps1 = []) (reported w d ps1 self)"
    using first by (simp add: and_then_def)
  also have "\<dots> = (Return ((success \<and> missing w d ps1 = []) \<and> missing w d ps2 = []),
      reported w d ps2 (reported w d ps1 self))"
    using l2 a2 by (rule 2(2))
  finally show ?case
    by (simp add: ps missing_append reported_append)
next
  case (3 w d success)
  then show ?case by (simp add: ret_def reported_Nil missing_def)
next
  case (4 w d title path rest success)
  from 4(3) obtain ps1 ps2 where ps: "ps = ps1 @ ps2"
    and l1: "(case path of YList children \<Rightarrow> nav_leaves children | _ \<Rightarrow> [path]) = map YStr ps1"
    and l2: "pair_leaves rest = map YStr ps2"
    by (auto simp add: append_eq_map_conv)
  from 4(4) ps
  have a1: "\<forall>p \<in> set ps1. \<exists>found. path_exists w (path_join w d p) = Inr found"
    and a2: "\<forall>p \<in> set ps2. \<exists>found. path_exists w (path_join w d p) = Inr found"
    by simp_all
  have first: "(case path of
          YList children \<Rightarrow>
            and_then (nav_items_loop w d children True) (\<lambda>ok. ret (success \<and> ok))
        | YStr p \<Rightarrow>
            and_then (call (path_exists w (path_join w d p))) (\<lambda>found.
              if \<not> found
              then and_then (errors_append (''Missing file: '' @ path_join w d p))
                     (\<lambda>_. ret False)
              else ret success)
        | other \<Rightarrow>
            raise (''unsupported operand type(s) for /: '' @ quoted ''PosixPath''
                   @ '' and '' @ quoted (type_name other))) self
      = (Return (success \<and> missing w d ps1 = []), reported w d ps1 self)"
  proof (cases path)
    case (YStr p)
    with l1 have p: "ps1 = [p]" by (cases ps1) auto
    with a1 obtain found where "path_exists w (path_join w d p) = Inr found"
      by auto
    with YStr p show ?thesis
      by (cases found)
        (simp_all add: call_def ret_def and_then_def errors_append_def reported_def missing_def)
  next
    case (YScalar t s)
    with l1 show ?thesis by (cases ps1) auto
  next
    case (YList children)
    with l1 have "nav_leaves children = map YStr ps1" by simp
    from 4(1) [OF YList this a1] YList show ?thesis
      by (simp add: and_then_def ret_def)
  next
    case (YDict x)
    with l1 show ?thesis by (cases ps1) auto
  qed
  have "nav_pairs_loop w d ((title, path) # rest) success self
      = nav_pairs_loop w d rest (success \<and> missing w d ps1 = []) (reported w d ps1 self)"
    using first by (simp add: and_then_def)
  also have "\<dots> = (Return ((success \<and> missing w d ps1 = []) \<and> missing w d ps2 = []),
      reported w d ps2 (reported w d ps1 self))"
    using l2 a2 by (rule 4(2))
  finally show ?case
    by (simp add: ps missing_append reported_append)
qed



subsection \<open>Heading levels\<close>

lemma validate_markdown_files:
  "validate_markdown w self = for_each (rglob_md w (docs_dir self)) (markdown_file w) True self"
  unfolding validate_markdown_def markdown_file_def ..

lemma framed_markdown_file: "framed (markdown_file w md_file success)"
  unfolding markdown_file_def by (intro framed_intros framed_check_headings)

lemma framed_warnings:
  assumes "framed m" and "m self = (r, self')"
  shows "\<exists>ws. warnings self' = warnings self @ ws"
proof -
  from framed_run [OF assms(1), of self] assms(2)
  have "self' = emit (errors_of m self) (warnings_of m self) self"
    by simp
  then show ?thesis
    by (simp add: emit_def)
qed

lemma framed_returns:
  assumes "framed m" and "fst (m self) = Return x"
  shows "\<exists>es ws. m self = (Return x, emit es ws self)"
  using framed_run [OF assms(1), of self] assms(2) by (metis fst_conv)

lemma and_then_assoc: "and_then (and_then m f) g = and_then m (\<lambda>x. and_then (f x) g)"
  by (rule ext) (simp add: and_then_def split: prod.splits outcome.splits)

lemma for_each_append:
  "for_each (xs @ ys) body s = and_then (for_each xs body s) (for_each ys body)"
proof (induction xs arbitrary: s)
  case Nil
  show ?case by (rule ext) (simp add: and_then_def ret_def)
next
  case (Cons x xs)
  have "for_each ((x # xs) @ ys) body s = and_then (body x s) (for_each (xs @ ys) body)"
    by simp
  also have "for_each (xs @ ys) body = (\<lambda>s. and_then (for_each xs body s) (for_each ys body))"
    by (rule ext) (rule Cons.IH)
  finally show ?case
    by (simp add: and_then_assoc)
qed

lemma check_headings_steps:
  "check_headings md_file headings = for_each headings (heading_step md_file) 0"
  unfolding check_headings_def heading_step_def ..

lemma heading_step_result:
  "heading_step md_file (hashes, title) current self =
     (Return (length hashes),
      if int (length hashes) - int current > 1
      then self\<lparr>warnings := warnings self
             @ [''Skipped heading level in '' @ md_file @ '': '' @ title]\<rparr>
      else self)"
  by (simp add: heading_step_def and_then_def warnings_append_def ret_def)

lemma heading_loop_returns:
  "\<exists>level ws. for_each headings (heading_step md_file) current self
     = (Return level, self\<lparr>warnings := warnings self @ ws\<rparr>)"
proof (induction headings arbitrary: current self)
  case Nil
  show ?case
    by (simp add: ret_def) (rule exI [of _ "[]"], simp)
next
  case (Cons h headings)
  obtain hashes title where h: "h = (hashes, title)"
    by (cases h)
  obtain self1 ws1 where s: "heading_step md_file h current self = (Return (length hashes), self1)"
    and w1: "self1 = self\<lparr>warnings := warnings self @ ws1\<rparr>"
  proof (cases "int (length hashes) - int current > 1")
    case True
    show ?thesis
      by (rule that [of _ "[''Skipped heading level in '' @ md_file @ '': '' @ title]"])
        (simp_all add: h heading_step_result True)
  next
    case False
    show ?thesis
      by (rule that [of self "[]"]) (simp_all add: h heading_step_result False)
  qed
  from Cons.IH [of "length hashes" self1]
  obtain level ws where "for_each headings (heading_step md_file) (length hashes) self1
     = (Return level, self1\<lparr>warnings := warnings self1 @ ws\<rparr>)"
    by blast
  then have "for_each (h # headings) (heading_step md_file) current self
     = (Return level, self\<lparr>warnings := warnings self @ (ws1 @ ws)\<rparr>)"
    using s by (simp add: and_then_def w1)
  then show ?case
    by blast
qed

lemma check_headings_first:
  assumes "2 \<le> length hashes"
  shows "\<exists>level ws. check_headings md_file ((hashes, title) # rest) self =
     (Return level,
      self\<lparr>warnings := warnings self
         @ (''Skipped heading level in '' @ md_file @ '': '' @ title) # ws\<rparr>)"
proof -
  let ?self1 = "self\<lparr>warnings := warnings self
      @ [''Skipped heading level in '' @ md_file @ '': '' @ title]\<rparr>"
  have s: "heading_step md_file (hashes, title) 0 self = (Return (length hashes), ?self1)"
    using assms by (simp add: heading_step_result)
  from heading_loop_returns [of rest md_file "length hashes" ?self1]
  obtain level ws where "for_each rest (heading_step md_file) (length hashes) ?self1
     = (Return level, ?self1\<lparr>warnings := warnings ?self1 @ ws\<rparr>)"
    by blast
  then have "check_headings md_file ((hashes, title) # rest) self =
     (Return level,
      self\<lparr>warnings := warnings self
         @ (''Skipped heading level in '' @ md_file @ '': '' @ title) # ws\<rparr>)"
    using s by (simp add: check_headings_steps and_then_def)
  then show ?thesis
    by blast
qed

lemma check_headings_returns:
  "\<exists>level ws. check_headings md_file headings self =
     (Return level, self\<lparr>warnings := warnings self @ ws\<rparr>)"
  unfolding check_headings_steps by (rule heading_loop_returns)

lemma markdown_file_returns:
  assumes "read_text w md_file = Inr content"
  shows "\<exists>ok self'. markdown_file w md_file success self = (Return ok, self')"
proof -
  obtain level ws where c: "check_headings md_file (findall_headings content) self =
      (Return level, self\<lparr>warnings := warnings self @ ws\<rparr>)"
    using check_headings_returns by blast
  show ?thesis
    using assms c
    by (cases "render_html w content")
      (auto simp add: markdown_file_def and_then_def call_def ret_def errors_append_def)
qed

lemma markdown_file_first_heading:
  assumes "read_text w md_file = Inr content"
    and "findall_headings content = (hashes, title) # rest"
    and "2 \<le> length hashes"
  shows "\<exists>ok self'. markdown_file w md_file success self = (Return ok, self')
     \<and> ''Skipped heading level in '' @ md_file @ '': '' @ title \<in> set (warnings self')"
proof -
  obtain level ws where c: "check_headings md_file ((hashes, title) # rest) self =
      (Return level,
       self\<lparr>warnings := warnings self
          @ (''Skipped heading level in '' @ md_file @ '': '' @ title) # ws\<rparr>)"
    using check_headings_first [OF assms(3)] by blast
  show ?thesis
    using assms(1,2) c
    by (cases "render_html w content")
      (auto simp add: markdown_file_def and_then_def call_def ret_def errors_append_def)
qed

lemma readable_files_return:
  assumes "\<forall>g \<in> set files. \<exists>c. read_text w g = Inr c"
  shows "\<exists>ok self'. for_each files (markdown_file w) success self = (Return ok, self')"
  using assms
proof (induction files arbitrary: success self)
  case Nil
  show ?case by (simp add: ret_def)
next
  case (Cons g files)
  from Cons.prems obtain c where "read_text w g = Inr c"
    by auto
  from markdown_file_returns [OF this]
  obtain ok self' where 1: "markdown_file w g success self = (Return ok, self')"
    by blast
  from Cons.prems have "\<forall>g \<in> set files. \<exists>c. read_text w g = Inr c"
    by simp
  from Cons.IH [OF this, of ok self'] 1 show ?case
    by (simp add: and_then_def)
qed

lemma validate_markdown_warns:
  assumes "rglob_md w (docs_dir self) = before @ md_file # after"
    and "\<forall>g \<in> set before. \<exists>c. read_text w g = Inr c"
    and "read_text w md_file = Inr content"
    and "findall_headings content = (hashes, title) # rest"
    and "2 \<le> length hashes"
  shows "''Skipped heading level in '' @ md_file @ '': '' @ title
     \<in> set (warnings (snd (validate_markdown w self)))"
proof -
  let ?warning = "''Skipped heading level in '' @ md_file @ '': '' @ title"
  obtain ok1 self1 where 1: "for_each before (markdown_file w) True self = (Return ok1, self1)"
    using readable_files_return [OF assms(2)] by blast
  obtain ok2 self2 where 2: "markdown_file w md_file ok1 self1 = (Return ok2, self2)"
    and in2: "?warning \<in> set (warnings self2)"
    using markdown_file_first_heading [OF assms(3-5)] by blast
  obtain r self3 where 3: "for_each after (markdown_file w) ok2 self2 = (r, self3)"
    by (cases "for_each after (markdown_file w) ok2 self2")
  have "framed (for_each after (markdown_file w) ok2)"
    by (intro framed_for_each framed_markdown_file)
  from framed_warnings [OF this 3] in2 have in3: "?warning \<in> set (warnings self3)"
    by auto
  have "validate_markdown w self = (r, self3)"
    using 1 2 3
    by (simp add: validate_markdown_files assms(1) for_each_append and_then_def)
  with in3 show ?thesis
    by simp
qed



end
